theory Spec2Isabelle
  imports Main "HOL-Library.Word"
begin

section \<open>Data model of the diff parser\<close>

text \<open>
  Go's \<open>int\<close> is modelled as a 64-bit word (the size it has on amd64 and arm64):
  \<open>+\<close> wraps around, \<open>sint\<close> reads the signed value. Go strings are byte sequences and
  are modelled as \<open>string\<close>, one \<open>char\<close> per byte.
\<close>

type_synonym go_int = "64 word"

datatype FileMode = Deleted | Modified | New

datatype DiffLineMode = Added | Removed | Unchanged

record DiffLine =
  Mode :: DiffLineMode
  Number :: go_int
  Content :: string
  Position :: go_int

record DiffRange =
  Start :: go_int
  Length :: go_int
  Lines :: "DiffLine list"

record DiffChunk =
  ChunkHeader :: string
  OrigRange :: DiffRange
  NewRange :: DiffRange
  WholeRange :: DiffRange

text \<open>The field \<open>Mode\<close> of \<open>DiffFile\<close> is named \<open>FMode\<close> here, since \<open>DiffLine\<close> has
  a field \<open>Mode\<close> already.\<close>

record DiffFile =
  DiffHeader :: string
  FMode :: FileMode
  OrigName :: string
  NewName :: string
  Chunks :: "DiffChunk list"

text \<open>
  \<open>Files\<close> is a Go slice, whose zero value \<open>nil\<close> differs observably from an empty
  non-nil slice: \<open>None\<close> is \<open>nil\<close>, \<open>Some fs\<close> a non-nil slice. (\<open>Chunks\<close> and
  \<open>Lines\<close> are only ever appended to and ranged over; for them \<open>nil\<close> and the empty
  slice are both \<open>[]\<close>.)
\<close>

record Diff =
  Files :: "DiffFile list option"
  Raw :: string
  PullID :: "64 word"

text \<open>What \<open>Parse\<close> can end with instead of a \<open>Diff\<close>: a returned \<open>error\<close> value, or a
  run-time panic, which no caller of \<open>Parse\<close> receives as a return value.\<close>

datatype go_error =
  ErrorString string          \<comment> \<open>\<open>errors.New(msg)\<close>\<close>
| NumErrorRange string        \<comment> \<open>\<open>*strconv.NumError{Func: "Atoi", Num: s, Err: ErrRange}\<close>\<close>
| NumErrorSyntax string       \<comment> \<open>\<open>*strconv.NumError{Func: "Atoi", Num: s, Err: ErrSyntax}\<close>\<close>

datatype go_panic =
  NilPointerDereference
| SliceBoundsOutOfRange

datatype failure = Err go_error | Panic go_panic


section \<open>Strings\<close>

definition HasPrefix :: "string \<Rightarrow> string \<Rightarrow> bool" where
  "HasPrefix s p = (take (length p) s = p)"

definition TrimPrefix :: "string \<Rightarrow> string \<Rightarrow> string" where
  "TrimPrefix s p = (if HasPrefix s p then drop (length p) s else s)"

text \<open>\<open>strings.Split(s, "\n")\<close>: the pieces between the newlines, one more than there are
  newlines; the empty string gives one empty piece.\<close>

fun Split_nl :: "string \<Rightarrow> string list" where
  "Split_nl [] = [[]]"
| "Split_nl (c # cs) =
     (if c = CHR 0x0A then [] # Split_nl cs
      else (case Split_nl cs of [] \<Rightarrow> [[c]] | x # xs \<Rightarrow> (c # x) # xs))"

text \<open>The slice expression \<open>s[1:]\<close>, which panics on the empty string.\<close>

definition slice_from1 :: "string \<Rightarrow> failure + string" where
  "slice_from1 s = (case s of [] \<Rightarrow> Inl (Panic SliceBoundsOutOfRange) | _ # t \<Rightarrow> Inr t)"

definition is_digit :: "char \<Rightarrow> bool" where
  "is_digit c = (c \<in> set ''0123456789'')"

definition digit_val :: "char \<Rightarrow> int" where
  "digit_val c = of_char c - 48"

definition digits_val :: "string \<Rightarrow> int" where
  "digits_val s = foldl (\<lambda>a c. 10 * a + digit_val c) 0 s"

text \<open>\<open>strconv.Atoi\<close> with a 64-bit \<open>int\<close>: an optional sign, then decimal digits only;
  a value outside the range of \<open>int\<close> is a range error.\<close>

definition Atoi :: "string \<Rightarrow> failure + go_int" where
  "Atoi s =
     (let neg = (s \<noteq> [] \<and> hd s = CHR ''-'');
          body = (if s \<noteq> [] \<and> (hd s = CHR ''+'' \<or> hd s = CHR ''-'') then tl s else s)
      in if body = [] \<or> \<not> list_all is_digit body then Inl (Err (NumErrorSyntax s))
         else if neg then
           (if digits_val body \<le> 2 ^ 63 then Inr (- word_of_int (digits_val body))
            else Inl (Err (NumErrorRange s)))
         else
           (if digits_val body < 2 ^ 63 then Inr (word_of_int (digits_val body))
            else Inl (Err (NumErrorRange s))))"

section \<open>The regular expressions of \<open>Parse\<close>\<close>

definition not_nl :: "char \<Rightarrow> bool" where
  "not_nl c = (c \<noteq> CHR 0x0A)"

text \<open>\<open>^index .+$\<close>: \<open>.\<close> is any character but a newline, \<open>$\<close> the end of the text.\<close>

definition rein :: "string \<Rightarrow> bool" where
  "rein s = (HasPrefix s ''index '' \<and> drop 6 s \<noteq> [] \<and> list_all not_nl (drop 6 s))"

definition is_pm :: "char \<Rightarrow> bool" where
  "is_pm c = (c = CHR ''-'' \<or> c = CHR ''+'')"

text \<open>\<open>^(-|\+){3} .+$\<close>\<close>

definition remp :: "string \<Rightarrow> bool" where
  "remp s =
     (case s of
        a # b # c # d # t \<Rightarrow>
          is_pm a \<and> is_pm b \<and> is_pm c \<and> d = CHR '' '' \<and> t \<noteq> [] \<and> list_all not_nl t
      | _ \<Rightarrow> False)"

text \<open>
  The hunk heading pattern \<open>@@ \-(\d+),?(\d+)? \+(\d+),?(\d+)? @@ ?(.+)?\<close>, matched at the
  start of \<open>s\<close>. Every repetition is greedy, and the rest of the pattern has to match
  at the end of the digits and the comma of a side whatever way the groups split them;
  so the first alternative the matcher tries (the first group takes the longest run of
  digits, the second group the digits after the comma) succeeds whenever any does, and
  it is the one that is reported. The result is the list of the whole match and the
  five groups, an unmatched group being the empty string.
\<close>

definition strip_lit :: "string \<Rightarrow> string \<Rightarrow> string option" where
  "strip_lit p s = (if HasPrefix s p then Some (drop (length p) s) else None)"

definition opt_char :: "char \<Rightarrow> string \<Rightarrow> string" where
  "opt_char c s = (case s of [] \<Rightarrow> [] | x # t \<Rightarrow> if x = c then t else s)"

definition match_here :: "string \<Rightarrow> string list option" where
  "match_here s =
     (case strip_lit ''@@ -'' s of None \<Rightarrow> None | Some r1 \<Rightarrow>
      let g1 = takeWhile is_digit r1; r2 = opt_char CHR '','' (dropWhile is_digit r1);
          g2 = takeWhile is_digit r2
      in if g1 = [] then None else
      (case strip_lit '' +'' (dropWhile is_digit r2) of None \<Rightarrow> None | Some r3 \<Rightarrow>
       let g3 = takeWhile is_digit r3; r4 = opt_char CHR '','' (dropWhile is_digit r3);
           g4 = takeWhile is_digit r4
       in if g3 = [] then None else
       (case strip_lit '' @@'' (dropWhile is_digit r4) of None \<Rightarrow> None | Some r5 \<Rightarrow>
        let g5 = takeWhile not_nl (opt_char CHR '' '' r5)
        in Some [take (length s - length (dropWhile not_nl (opt_char CHR '' '' r5))) s,
                 g1, g2, g3, g4, g5])))"

text \<open>\<open>FindStringSubmatch\<close>: the leftmost match; \<open>[]\<close> is the \<open>nil\<close> of no match.\<close>

fun FindStringSubmatch :: "string \<Rightarrow> string list" where
  "FindStringSubmatch s =
     (case match_here s of
        Some m \<Rightarrow> m
      | None \<Rightarrow> (case s of [] \<Rightarrow> [] | _ # t \<Rightarrow> FindStringSubmatch t))"

section \<open>Line classification\<close>

definition lineMode :: "string \<Rightarrow> failure + DiffLineMode" where
  "lineMode line =
     (case line of
        [] \<Rightarrow> Inl (Panic SliceBoundsOutOfRange)
      | c # _ \<Rightarrow>
          if c = CHR '' '' then Inr Unchanged
          else if c = CHR ''+'' then Inr Added
          else if c = CHR ''-'' then Inr Removed
          else Inl (Err (ErrorString
                 (''could not parse line mode for line: '' @ [CHR 0x22] @ line @ [CHR 0x22]))))"

definition isSourceLine :: "string \<Rightarrow> bool" where
  "isSourceLine line =
     (if line = [CHR 0x5C] @ '' No newline at end of file'' then False
      else if length line = 0 \<or>
              (length line \<ge> 3 \<and> (take 3 line = ''---'' \<or> take 3 line = ''+++'')) then False
      else True)"

section \<open>The parser state\<close>

text \<open>
  The local variables of \<open>Parse\<close>. \<open>diff.Files\<close> holds pointers to the files, each file
  pointers to its chunks; \<open>file\<close> and \<open>hunk\<close> are pointers into that structure, modelled
  as positions in it (\<open>None\<close> is \<open>nil\<close>): \<open>file_ptr\<close> is the index of a file,
  \<open>hunk_ptr\<close> the index of a file with the index of one of its chunks.
\<close>

record parse_state =
  diffFiles :: "DiffFile list option"
  file_ptr :: "nat option"
  hunk_ptr :: "(nat \<times> nat) option"
  AddedCount :: go_int
  RemovedCount :: go_int
  inHunk :: bool
  diffPosCount :: go_int
  firstHunkInFile :: bool

definition init_state :: parse_state where
  "init_state =
     \<lparr> diffFiles = None, file_ptr = None, hunk_ptr = None, AddedCount = 0, RemovedCount = 0,
       inHunk = False, diffPosCount = 0, firstHunkInFile = False \<rparr>"

definition append_slice :: "'a list option \<Rightarrow> 'a \<Rightarrow> 'a list option" where
  "append_slice s x = (case s of None \<Rightarrow> Some [x] | Some xs \<Rightarrow> Some (xs @ [x]))"

definition slice_elems :: "'a list option \<Rightarrow> 'a list" where
  "slice_elems s = (case s of None \<Rightarrow> [] | Some xs \<Rightarrow> xs)"

text \<open>A write through the pointer \<open>file\<close>, and one through \<open>hunk\<close>.\<close>

definition update_file :: "(DiffFile \<Rightarrow> DiffFile) \<Rightarrow> parse_state \<Rightarrow> failure + parse_state" where
  "update_file g st =
     (case file_ptr st of
        None \<Rightarrow> Inl (Panic NilPointerDereference)
      | Some i \<Rightarrow>
          Inr (st\<lparr>diffFiles := map_option (\<lambda>fs. fs[i := g (fs ! i)]) (diffFiles st)\<rparr>))"

definition update_chunk :: "nat \<Rightarrow> (DiffChunk \<Rightarrow> DiffChunk) \<Rightarrow> DiffFile \<Rightarrow> DiffFile" where
  "update_chunk j g f = f\<lparr>Chunks := (Chunks f)[j := g (Chunks f ! j)]\<rparr>"

definition update_hunk :: "(DiffChunk \<Rightarrow> DiffChunk) \<Rightarrow> parse_state \<Rightarrow> failure + parse_state" where
  "update_hunk g st =
     (case hunk_ptr st of
        None \<Rightarrow> Inl (Panic NilPointerDereference)
      | Some (i, j) \<Rightarrow>
          Inr (st\<lparr>diffFiles :=
                 map_option (\<lambda>fs. fs[i := update_chunk j g (fs ! i)]) (diffFiles st)\<rparr>))"

definition empty_range :: DiffRange where
  "empty_range = \<lparr> Start = 0, Length = 0, Lines = [] \<rparr>"

definition empty_chunk :: DiffChunk where
  "empty_chunk =
     \<lparr> ChunkHeader = [], OrigRange = empty_range, NewRange = empty_range,
       WholeRange = empty_range \<rparr>"

definition add_line :: "DiffLine \<Rightarrow> DiffRange \<Rightarrow> DiffRange" where
  "add_line dl r = r\<lparr>Lines := Lines r @ [dl]\<rparr>"

section \<open>The cases of the loop body\<close>

text \<open>The header of the file that starts at line \<open>idx\<close>.\<close>

definition file_header :: "string list \<Rightarrow> nat \<Rightarrow> string" where
  "file_header lines idx =
     (let header = lines ! idx in
      if length lines > idx + 3 then
        (let header1 = (if rein (lines ! (idx + 1))
                        then header @ [CHR 0x0A] @ lines ! (idx + 1) else header)
         in if remp (lines ! (idx + 2)) \<and> remp (lines ! (idx + 3))
            then header1 @ [CHR 0x0A] @ lines ! (idx + 2) @ [CHR 0x0A] @ lines ! (idx + 3)
            else header1)
      else header)"

definition start_file :: "string list \<Rightarrow> nat \<Rightarrow> parse_state \<Rightarrow> parse_state" where
  "start_file lines idx st =
     st\<lparr> inHunk := False,
         diffFiles := append_slice (diffFiles st)
            \<lparr> DiffHeader = file_header lines idx, FMode = Modified, OrigName = [],
              NewName = [], Chunks = [] \<rparr>,
         file_ptr := Some (length (slice_elems (diffFiles st))),
         firstHunkInFile := True \<rparr>"

text \<open>The numbers of a hunk heading, from the groups of the match.\<close>

definition heading_numbers ::
  "string list \<Rightarrow> failure + (go_int \<times> go_int \<times> go_int \<times> go_int)" where
  "heading_numbers m =
     (case Atoi (m ! 1) of Inl e \<Rightarrow> Inl e | Inr a \<Rightarrow>
      (case (if length (m ! 2) > 0 then Atoi (m ! 2) else Inr a) of Inl e \<Rightarrow> Inl e | Inr b \<Rightarrow>
       (case Atoi (m ! 3) of Inl e \<Rightarrow> Inl e | Inr c \<Rightarrow>
        (case (if length (m ! 4) > 0 then Atoi (m ! 4) else Inr c) of Inl e \<Rightarrow> Inl e
         | Inr d \<Rightarrow> Inr (a, b, c, d)))))"

definition start_hunk :: "string \<Rightarrow> parse_state \<Rightarrow> failure + parse_state" where
  "start_hunk l st0 =
     (let st1 = (if firstHunkInFile st0
                 then st0\<lparr>diffPosCount := 0, firstHunkInFile := False\<rparr> else st0);
          st2 = st1\<lparr>inHunk := True\<rparr>
      in case file_ptr st2 of
           None \<Rightarrow> Inl (Panic NilPointerDereference)
         | Some i \<Rightarrow>
           (let j = length (Chunks (slice_elems (diffFiles st2) ! i));
                st3 = st2\<lparr>hunk_ptr := Some (i, j),
                          diffFiles := map_option
                            (\<lambda>fs. fs[i := (fs ! i)\<lparr>Chunks := Chunks (fs ! i) @ [empty_chunk]\<rparr>])
                            (diffFiles st2)\<rparr>;
                m = FindStringSubmatch l
            in if length m < 5 then Inl (Err (ErrorString (''Error parsing line: '' @ l)))
               else
               (case heading_numbers m of
                  Inl e \<Rightarrow> Inl e
                | Inr (a, b, c, d) \<Rightarrow>
                  (case update_hunk
                          (\<lambda>h. h\<lparr> ChunkHeader := (if length (m ! 5) > 0 then m ! 5
                                                   else ChunkHeader h),
                                  OrigRange := \<lparr> Start = a, Length = b, Lines = [] \<rparr>,
                                  NewRange := \<lparr> Start = c, Length = d, Lines = [] \<rparr> \<rparr>) st3 of
                     Inl e \<Rightarrow> Inl e
                   | Inr st4 \<Rightarrow> Inr (st4\<lparr>AddedCount := c, RemovedCount := a\<rparr>)))))"

definition body_line :: "string \<Rightarrow> parse_state \<Rightarrow> failure + parse_state" where
  "body_line l st =
     (case lineMode l of Inl e \<Rightarrow> Inl e | Inr m \<Rightarrow>
      (case slice_from1 l of Inl e \<Rightarrow> Inl e | Inr content \<Rightarrow>
       (let line = \<lparr> Mode = m, Number = 0, Content = content, Position = diffPosCount st \<rparr>
        in case m of
             Added \<Rightarrow>
               (case slice_from1 (Content line) of Inl e \<Rightarrow> Inl e | Inr content' \<Rightarrow>
                (let newLine = line\<lparr>Number := AddedCount st, Content := content'\<rparr>
                 in case update_hunk
                           (\<lambda>h. h\<lparr> NewRange := add_line newLine (NewRange h),
                                   WholeRange := add_line newLine (WholeRange h) \<rparr>) st of
                      Inl e \<Rightarrow> Inl e
                    | Inr st' \<Rightarrow> Inr (st'\<lparr>AddedCount := AddedCount st' + 1\<rparr>)))
           | Removed \<Rightarrow>
               (case slice_from1 (Content line) of Inl e \<Rightarrow> Inl e | Inr content' \<Rightarrow>
                (let origLine = line\<lparr>Number := RemovedCount st, Content := content'\<rparr>
                 in case update_hunk
                           (\<lambda>h. h\<lparr> OrigRange := add_line origLine (OrigRange h),
                                   WholeRange := add_line origLine (WholeRange h) \<rparr>) st of
                      Inl e \<Rightarrow> Inl e
                    | Inr st' \<Rightarrow> Inr (st'\<lparr>RemovedCount := RemovedCount st' + 1\<rparr>)))
           | Unchanged \<Rightarrow>
               (let newLine = line\<lparr>Number := AddedCount st\<rparr>;
                    origLine = line\<lparr>Number := RemovedCount st\<rparr>
                in case update_hunk
                          (\<lambda>h. h\<lparr> NewRange := add_line newLine (NewRange h),
                                  WholeRange := add_line newLine (WholeRange h),
                                  OrigRange := add_line origLine (OrigRange h) \<rparr>) st of
                     Inl e \<Rightarrow> Inl e
                   | Inr st' \<Rightarrow>
                       Inr (st'\<lparr>AddedCount := AddedCount st' + 1,
                               RemovedCount := RemovedCount st' + 1\<rparr>)))))"

text \<open>\<open>diffPosCount++\<close>, the first statement of the loop body.\<close>

definition count_line :: "parse_state \<Rightarrow> parse_state" where
  "count_line st = st\<lparr>diffPosCount := diffPosCount st + 1\<rparr>"

text \<open>One iteration of the loop over the lines: line \<open>l\<close> at index \<open>idx\<close>.\<close>

definition step :: "string list \<Rightarrow> nat \<Rightarrow> string \<Rightarrow> parse_state \<Rightarrow> failure + parse_state" where
  "step lines idx l st0 =
     (let st = count_line st0 in
      if HasPrefix l ''diff '' then Inr (start_file lines idx st)
      else if l = ''+++ /dev/null'' then update_file (\<lambda>f. f\<lparr>FMode := Deleted\<rparr>) st
      else if l = ''--- /dev/null'' then update_file (\<lambda>f. f\<lparr>FMode := New\<rparr>) st
      else if HasPrefix l ''--- a/'' then
        update_file (\<lambda>f. f\<lparr>OrigName := TrimPrefix l ''--- a/''\<rparr>) st
      else if HasPrefix l ''+++ b/'' then
        update_file (\<lambda>f. f\<lparr>NewName := TrimPrefix l ''+++ b/''\<rparr>) st
      else if HasPrefix l ''@@ '' then start_hunk l st
      else if inHunk st \<and> isSourceLine l then body_line l st
      else Inr st)"

fun parse_loop ::
  "string list \<Rightarrow> nat \<Rightarrow> string list \<Rightarrow> parse_state \<Rightarrow> failure + parse_state" where
  "parse_loop lines idx [] st = Inr st"
| "parse_loop lines idx (l # ls) st =
     (case step lines idx l st of
        Inl e \<Rightarrow> Inl e
      | Inr st' \<Rightarrow> parse_loop lines (Suc idx) ls st')"

definition Parse :: "string \<Rightarrow> failure + Diff" where
  "Parse diffString =
     (let lines = Split_nl diffString in
      case parse_loop lines 0 lines init_state of
        Inl e \<Rightarrow> Inl e
      | Inr st \<Rightarrow> Inr \<lparr> Files = diffFiles st, Raw = diffString, PullID = 0 \<rparr>)"

section \<open>Derived queries\<close>

text \<open>\<open>Changed\<close>: the three nested loops, over a Go map from file names to slices.\<close>

text \<open>The index expression \<open>dFiles[name]\<close>: the zero value, a slice without elements, for
  a key that the map does not have.\<close>

definition map_index :: "(string \<rightharpoonup> go_int list) \<Rightarrow> string \<Rightarrow> go_int list" where
  "map_index m name = (case m name of None \<Rightarrow> [] | Some ns \<Rightarrow> ns)"

definition add_changed :: "string \<Rightarrow> (string \<rightharpoonup> go_int list) \<Rightarrow> DiffLine \<Rightarrow> (string \<rightharpoonup> go_int list)" where
  "add_changed name m dl =
     (if Mode dl = Added then m(name \<mapsto> map_index m name @ [Number dl]) else m)"

definition changed_chunk :: "string \<Rightarrow> (string \<rightharpoonup> go_int list) \<Rightarrow> DiffChunk \<Rightarrow> (string \<rightharpoonup> go_int list)" where
  "changed_chunk name m h = foldl (add_changed name) m (Lines (NewRange h))"

definition changed_file :: "(string \<rightharpoonup> go_int list) \<Rightarrow> DiffFile \<Rightarrow> (string \<rightharpoonup> go_int list)" where
  "changed_file m f =
     (if FMode f = Deleted then m else foldl (changed_chunk (NewName f)) m (Chunks f))"

definition Changed :: "Diff \<Rightarrow> (string \<rightharpoonup> go_int list)" where
  "Changed d = foldl changed_file Map.empty (slice_elems (Files d))"

text \<open>The method \<open>Length\<close> of a chunk; \<open>Length\<close> is a field of \<open>DiffRange\<close> already.\<close>

definition ChunkLength :: "DiffChunk \<Rightarrow> go_int" where
  "ChunkLength h = word_of_nat (length (Lines (WholeRange h))) + 1"

section \<open>Notions used to state the properties\<close>

text \<open>The state of the loop after its first \<open>n\<close> iterations, if none of them failed.\<close>

definition state_at :: "string list \<Rightarrow> nat \<Rightarrow> failure + parse_state" where
  "state_at lines n = parse_loop lines 0 (take n lines) init_state"

text \<open>The chunk that \<open>hunk\<close> points to.\<close>

definition hunk_chunk :: "parse_state \<Rightarrow> DiffChunk option" where
  "hunk_chunk st =
     (case hunk_ptr st of
        None \<Rightarrow> None
      | Some (i, j) \<Rightarrow>
          (let fs = slice_elems (diffFiles st) in
           if i < length fs \<and> j < length (Chunks (fs ! i)) then Some (Chunks (fs ! i) ! j)
           else None))"

text \<open>The indices, among the first \<open>n\<close> lines, of the lines that start a file; and the
  index of the first hunk heading of the file that is current after \<open>n\<close> lines.\<close>

definition diff_idxs :: "string list \<Rightarrow> nat \<Rightarrow> nat list" where
  "diff_idxs lines n = filter (\<lambda>i. HasPrefix (lines ! i) ''diff '') [0..<n]"

definition first_hunk :: "string list \<Rightarrow> nat \<Rightarrow> nat option" where
  "first_hunk lines n =
     (case rev (diff_idxs lines n) of
        [] \<Rightarrow> None
      | d # _ \<Rightarrow>
          (case filter (\<lambda>h. HasPrefix (lines ! h) ''@@ '') [Suc d..<n] of
             [] \<Rightarrow> None
           | h # _ \<Rightarrow> Some h))"

text \<open>The header of a file as the amended claim describes it: the \<open>diff\<close> line alone
  unless three more lines follow it; then the next line if it is an \<open>index\<close> line, and the
  second and third next lines if both are marker lines.\<close>

definition header_spec :: "string list \<Rightarrow> nat \<Rightarrow> string" where
  "header_spec lines i =
     lines ! i
     @ (if i + 3 < length lines \<and> rein (lines ! (i + 1))
        then [CHR 0x0A] @ lines ! (i + 1) else [])
     @ (if i + 3 < length lines \<and> remp (lines ! (i + 2)) \<and> remp (lines ! (i + 3))
        then [CHR 0x0A] @ lines ! (i + 2) @ [CHR 0x0A] @ lines ! (i + 3) else [])"

text \<open>What \<open>Changed\<close> is claimed to hold for a file name: the numbers of the added lines
  of the new ranges of the files of that name that are not deleted, in order; no entry
  when there is no such line.\<close>

definition added_numbers :: "DiffFile \<Rightarrow> go_int list" where
  "added_numbers f =
     concat (map (\<lambda>h. map Number (filter (\<lambda>dl. Mode dl = Added) (Lines (NewRange h))))
                 (Chunks f))"

definition changed_spec :: "Diff \<Rightarrow> string \<Rightarrow> go_int list option" where
  "changed_spec d name =
     (let ns = concat (map added_numbers
                 (filter (\<lambda>f. FMode f \<noteq> Deleted \<and> NewName f = name) (slice_elems (Files d))))
      in if ns = [] then None else Some ns)"


text \<open>The records that one body line adds to its chunk, following the claim: an unchanged
  line gives a record to the new range, one of the same content and position to the
  original range, and the record of the new range to the whole range; an added or a
  removed line gives one record to its side and to the whole range. The numbers are those
  of the counter of each side.\<close>

definition line_records_spec ::
  "DiffLineMode \<Rightarrow> string \<Rightarrow> go_int \<Rightarrow> go_int \<Rightarrow> go_int \<Rightarrow> DiffChunk \<Rightarrow> DiffChunk" where
  "line_records_spec m text added removed pos c =
     (case m of
        Unchanged \<Rightarrow>
          c\<lparr> NewRange := add_line \<lparr> Mode = Unchanged, Number = added, Content = text,
                                     Position = pos \<rparr> (NewRange c),
             WholeRange := add_line \<lparr> Mode = Unchanged, Number = added, Content = text,
                                       Position = pos \<rparr> (WholeRange c),
             OrigRange := add_line \<lparr> Mode = Unchanged, Number = removed, Content = text,
                                      Position = pos \<rparr> (OrigRange c) \<rparr>
      | Added \<Rightarrow>
          c\<lparr> NewRange := add_line \<lparr> Mode = Added, Number = added, Content = text,
                                     Position = pos \<rparr> (NewRange c),
             WholeRange := add_line \<lparr> Mode = Added, Number = added, Content = text,
                                       Position = pos \<rparr> (WholeRange c) \<rparr>
      | Removed \<Rightarrow>
          c\<lparr> OrigRange := add_line \<lparr> Mode = Removed, Number = removed, Content = text,
                                      Position = pos \<rparr> (OrigRange c),
             WholeRange := add_line \<lparr> Mode = Removed, Number = removed, Content = text,
                                       Position = pos \<rparr> (WholeRange c) \<rparr>)"

text \<open>The records that a range has gained.\<close>

definition new_lines :: "DiffRange \<Rightarrow> DiffRange \<Rightarrow> DiffLine list" where
  "new_lines r r' = drop (length (Lines r)) (Lines r')"

section \<open>Notions used in the proofs\<close>

text \<open>The lines of the second to fifth case of the loop body, which write to the current
  file; and an update of a file that keeps its chunks and its header.\<close>

definition path_line :: "string \<Rightarrow> bool" where
  "path_line l = (l = ''+++ /dev/null'' \<or> l = ''--- /dev/null'' \<or> HasPrefix l ''--- a/'' \<or>
      HasPrefix l ''+++ b/'')"

definition keeps_chunks :: "(DiffFile \<Rightarrow> DiffFile) \<Rightarrow> bool" where
  "keeps_chunks g = (\<forall>f. Chunks (g f) = Chunks f \<and> DiffHeader (g f) = DiffHeader f)"

text \<open>The pointers of a state that the loop reaches: \<open>file\<close> is nil as long as there is
  no file and points to the last file afterwards; inside a hunk, \<open>hunk\<close> points to the
  last chunk of that file.\<close>

definition wf_state :: "parse_state \<Rightarrow> bool" where
  "wf_state st =
     (case file_ptr st of
        None \<Rightarrow> diffFiles st = None \<and> \<not> inHunk st
      | Some i \<Rightarrow>
          (\<exists>fs. diffFiles st = Some fs \<and> length fs = Suc i \<and>
             (inHunk st \<longrightarrow> (\<exists>j. hunk_ptr st = Some (i, j) \<and> length (Chunks (fs ! i)) = Suc j))))"

definition file_view :: "parse_state \<Rightarrow> DiffFile list \<Rightarrow> DiffFile \<Rightarrow> bool" where
  "file_view st pre f \<longleftrightarrow> diffFiles st = Some (pre @ [f]) \<and> file_ptr st = Some (length pre)"

definition hunk_view ::
  "parse_state \<Rightarrow> DiffFile list \<Rightarrow> DiffFile \<Rightarrow> DiffChunk list \<Rightarrow> DiffChunk \<Rightarrow> bool" where
  "hunk_view st pre f cs c \<longleftrightarrow>
     file_view st pre f \<and> Chunks f = cs @ [c] \<and> hunk_ptr st = Some (length pre, length cs)"

text \<open>The chunk of a heading, and the state after the heading.\<close>

definition heading_chunk :: "string list \<Rightarrow> go_int \<Rightarrow> go_int \<Rightarrow> go_int \<Rightarrow> go_int \<Rightarrow> DiffChunk" where
  "heading_chunk m a b c d =
     \<lparr> ChunkHeader = (if length (m ! 5) > 0 then m ! 5 else []),
       OrigRange = \<lparr> Start = a, Length = b, Lines = [] \<rparr>,
       NewRange = \<lparr> Start = c, Length = d, Lines = [] \<rparr>,
       WholeRange = empty_range \<rparr>"

definition hunk_started ::
  "parse_state \<Rightarrow> DiffFile list \<Rightarrow> DiffFile \<Rightarrow> DiffChunk \<Rightarrow> parse_state" where
  "hunk_started st pre f c =
     st\<lparr> diffPosCount := (if firstHunkInFile st then 0 else diffPosCount st),
         firstHunkInFile := False, inHunk := True,
         hunk_ptr := Some (length pre, length (Chunks f)),
         diffFiles := Some (pre @ [f\<lparr>Chunks := Chunks f @ [c]\<rparr>]),
         AddedCount := Start (NewRange c), RemovedCount := Start (OrigRange c) \<rparr>"

text \<open>The state after a body line, and the chunk after a line of each mode.\<close>

definition line_done ::
  "parse_state \<Rightarrow> DiffFile list \<Rightarrow> DiffFile \<Rightarrow> DiffChunk list \<Rightarrow> DiffChunk \<Rightarrow> go_int \<Rightarrow> go_int
     \<Rightarrow> parse_state" where
  "line_done st pre f cs c da dr =
     st\<lparr> diffFiles := Some (pre @ [f\<lparr>Chunks := cs @ [c]\<rparr>]),
         AddedCount := AddedCount st + da, RemovedCount := RemovedCount st + dr \<rparr>"

definition unchanged_chunk :: "parse_state \<Rightarrow> string \<Rightarrow> DiffChunk \<Rightarrow> DiffChunk" where
  "unchanged_chunk st t c =
     c\<lparr> NewRange := add_line \<lparr> Mode = Unchanged, Number = AddedCount st, Content = t,
                                Position = diffPosCount st \<rparr> (NewRange c),
        WholeRange := add_line \<lparr> Mode = Unchanged, Number = AddedCount st, Content = t,
                                  Position = diffPosCount st \<rparr> (WholeRange c),
        OrigRange := add_line \<lparr> Mode = Unchanged, Number = RemovedCount st, Content = t,
                                 Position = diffPosCount st \<rparr> (OrigRange c) \<rparr>"

definition added_chunk :: "parse_state \<Rightarrow> string \<Rightarrow> DiffChunk \<Rightarrow> DiffChunk" where
  "added_chunk st t c =
     c\<lparr> NewRange := add_line \<lparr> Mode = Added, Number = AddedCount st, Content = t,
                                Position = diffPosCount st \<rparr> (NewRange c),
        WholeRange := add_line \<lparr> Mode = Added, Number = AddedCount st, Content = t,
                                  Position = diffPosCount st \<rparr> (WholeRange c) \<rparr>"

definition removed_chunk :: "parse_state \<Rightarrow> string \<Rightarrow> DiffChunk \<Rightarrow> DiffChunk" where
  "removed_chunk st t c =
     c\<lparr> OrigRange := add_line \<lparr> Mode = Removed, Number = RemovedCount st, Content = t,
                                 Position = diffPosCount st \<rparr> (OrigRange c),
        WholeRange := add_line \<lparr> Mode = Removed, Number = RemovedCount st, Content = t,
                                  Position = diffPosCount st \<rparr> (WholeRange c) \<rparr>"

text \<open>The files after \<open>n\<close> lines: none before the first \<open>diff\<close> line, and then one file
  for each \<open>diff\<close> line, with the header of that line.\<close>

definition headers :: "parse_state \<Rightarrow> string list" where
  "headers st = map DiffHeader (slice_elems (diffFiles st))"

definition files_inv :: "string list \<Rightarrow> nat \<Rightarrow> parse_state \<Rightarrow> bool" where
  "files_inv lines n st \<longleftrightarrow>
     (diffFiles st = None \<longleftrightarrow> diff_idxs lines n = []) \<and>
     headers st = map (header_spec lines) (diff_idxs lines n)"

text \<open>A step that does not start a file replaces at most the last file, by one with the
  same header.\<close>

definition same_files :: "parse_state \<Rightarrow> parse_state \<Rightarrow> bool" where
  "same_files st st' \<longleftrightarrow>
     diffFiles st' = diffFiles st \<or>
     (\<exists>pre f f'. diffFiles st = Some (pre @ [f]) \<and> diffFiles st' = Some (pre @ [f']) \<and>
        DiffHeader f' = DiffHeader f)"

text \<open>The position counter after \<open>n\<close> lines: once the current file has a hunk heading, at
  line \<open>h\<close>, the counter is the number of lines after that heading.\<close>

definition pos_inv :: "string list \<Rightarrow> nat \<Rightarrow> parse_state \<Rightarrow> bool" where
  "pos_inv lines n st \<longleftrightarrow>
     (firstHunkInFile st \<longleftrightarrow> diff_idxs lines n \<noteq> [] \<and> first_hunk lines n = None) \<and>
     (inHunk st \<longrightarrow> first_hunk lines n \<noteq> None) \<and>
     (\<forall>h. first_hunk lines n = Some h \<longrightarrow> h < n \<and> diffPosCount st = word_of_nat (n - Suc h))"

text \<open>What a step that starts neither a file nor a hunk does to the flags and the counter.\<close>

definition counted :: "parse_state \<Rightarrow> parse_state \<Rightarrow> bool" where
  "counted st st' \<longleftrightarrow>
     firstHunkInFile st' = firstHunkInFile st \<and> inHunk st' = inHunk st \<and>
     diffPosCount st' = diffPosCount st + 1"


text \<open>\<open>Changed\<close> never stores a slice without elements.\<close>

definition no_empty_entry :: "(string \<rightharpoonup> go_int list) \<Rightarrow> bool" where
  "no_empty_entry m = (\<forall>k. m k \<noteq> Some [])"

section \<open>Example runs\<close>

text \<open>A file with one hunk, whose heading is followed by an empty line, an unchanged line,
  an added line and a removed line; and the states of the loop before the unchanged line,
  before the added line and after it.\<close>

definition example_lines :: "string list" where
  "example_lines = [''diff a'', ''@@ -3,2 +7,2 @@'', [], '' x'', ''+yz'', ''-pq'']"

definition example_state ::
  "DiffLine list \<Rightarrow> DiffLine list \<Rightarrow> DiffLine list \<Rightarrow> go_int \<Rightarrow> go_int \<Rightarrow> go_int \<Rightarrow> parse_state" where
  "example_state orig new whole added removed pos =
     \<lparr> diffFiles = Some [\<lparr> DiffHeader = ''diff a'', FMode = Modified, OrigName = [],
                           NewName = [],
                           Chunks = [\<lparr> ChunkHeader = [],
                                      OrigRange = \<lparr> Start = 3, Length = 2, Lines = orig \<rparr>,
                                      NewRange = \<lparr> Start = 7, Length = 2, Lines = new \<rparr>,
                                      WholeRange = \<lparr> Start = 0, Length = 0, Lines = whole \<rparr> \<rparr>] \<rparr>],
       file_ptr = Some 0, hunk_ptr = Some (0, 0), AddedCount = added, RemovedCount = removed,
       inHunk = True, diffPosCount = pos, firstHunkInFile = False \<rparr>"

definition example_state3 :: parse_state where
  "example_state3 = example_state [] [] [] 7 3 1"

definition example_state4 :: parse_state where
  "example_state4 =
     example_state [\<lparr> Mode = Unchanged, Number = 3, Content = ''x'', Position = 2 \<rparr>]
       [\<lparr> Mode = Unchanged, Number = 7, Content = ''x'', Position = 2 \<rparr>]
       [\<lparr> Mode = Unchanged, Number = 7, Content = ''x'', Position = 2 \<rparr>] 8 4 2"


section \<open>The loop, one line at a time\<close>

lemma parse_loop_append:
  "parse_loop lines i (xs @ ys) st =
     (case parse_loop lines i xs st of
        Inl e \<Rightarrow> Inl e
      | Inr st' \<Rightarrow> parse_loop lines (i + length xs) ys st')"
  by (induction xs arbitrary: i st) (auto split: sum.splits)

lemma state_at_0: "state_at lines 0 = Inr init_state"
  by (simp add: state_at_def)

lemma state_at_Suc:
  assumes "n < length lines"
  shows "state_at lines (Suc n) =
           (case state_at lines n of
              Inl e \<Rightarrow> Inl e
            | Inr st \<Rightarrow> step lines n (lines ! n) st)"
  using assms
  by (simp add: state_at_def take_Suc_conv_app_nth parse_loop_append split: sum.splits)


lemma Parse_state_at:
  "Parse s =
     (case state_at (Split_nl s) (length (Split_nl s)) of
        Inl e \<Rightarrow> Inl e
      | Inr st \<Rightarrow> Inr \<lparr> Files = diffFiles st, Raw = s, PullID = 0 \<rparr>)"
  by (simp add: Parse_def state_at_def Let_def)

lemma state_at_invariant:
  assumes init: "P 0 init_state"
    and step: "\<And>n st st'. n < length lines \<Longrightarrow> state_at lines n = Inr st \<Longrightarrow> P n st \<Longrightarrow>
                 step lines n (lines ! n) st = Inr st' \<Longrightarrow> P (Suc n) st'"
  shows "n \<le> length lines \<Longrightarrow> state_at lines n = Inr st \<Longrightarrow> P n st"
proof (induction n arbitrary: st)
  case 0
  then show ?case using init by (simp add: state_at_0)
next
  case (Suc n)
  from Suc.prems have n: "n < length lines" by simp
  from Suc.prems(2) obtain st0 where st0: "state_at lines n = Inr st0"
    and s: "step lines n (lines ! n) st0 = Inr st"
    by (auto simp: state_at_Suc [OF n] split: sum.splits)
  from Suc.IH [OF _ st0] n have "P n st0" by simp
  from step [OF n st0 this s] show ?case .
qed

section \<open>The cases of a step\<close>

lemma HasPrefix_Nil [simp]: "HasPrefix l []"
  by (simp add: HasPrefix_def)

lemma HasPrefix_Cons: "HasPrefix l (c # p) \<longleftrightarrow> (\<exists>t. l = c # t \<and> HasPrefix t p)"
  by (cases l) (auto simp: HasPrefix_def)

lemma HasPrefix_hd: "HasPrefix l (c # p) \<Longrightarrow> l \<noteq> [] \<and> hd l = c"
  by (auto simp: HasPrefix_Cons)

lemma path_line_hd: "path_line l \<Longrightarrow> l \<noteq> [] \<and> (hd l = CHR ''+'' \<or> hd l = CHR ''-'')"
  unfolding path_line_def by (elim disjE) (simp_all add: HasPrefix_Cons, auto)

lemma step_file:
  "HasPrefix l ''diff '' \<Longrightarrow> step lines idx l st = Inr (start_file lines idx (count_line st))"
  by (simp add: step_def Let_def)

lemma step_path:
  assumes "\<not> HasPrefix l ''diff ''" "path_line l"
  shows "\<exists>g. keeps_chunks g \<and> step lines idx l st = update_file g (count_line st)"
proof -
  let ?gs = "[(\<lambda>f. f\<lparr>FMode := Deleted\<rparr>), (\<lambda>f. f\<lparr>FMode := New\<rparr>),
              (\<lambda>f. f\<lparr>OrigName := TrimPrefix l ''--- a/''\<rparr>),
              (\<lambda>f. f\<lparr>NewName := TrimPrefix l ''+++ b/''\<rparr>)]"
  have k: "\<forall>g \<in> set ?gs. keeps_chunks g"
    by (simp add: keeps_chunks_def)
  have "\<exists>g \<in> set ?gs. step lines idx l st = update_file g (count_line st)"
    using assms unfolding step_def Let_def path_line_def
    by (simp only: if_False if_True list.set bex_simps insert_iff empty_iff split: if_splits) blast
  with k show ?thesis by blast
qed

lemma step_other:
  assumes "\<not> HasPrefix l ''diff ''" "\<not> path_line l"
  shows "step lines idx l st =
           (if HasPrefix l ''@@ '' then start_hunk l (count_line st)
            else if inHunk (count_line st) \<and> isSourceLine l then body_line l (count_line st)
            else Inr (count_line st))"
  using assms unfolding step_def Let_def path_line_def
  by (simp only: de_Morgan_disj if_False simp_thms)

lemma inHunk_count_line [simp]: "inHunk (count_line st) = inHunk st"
  by (simp add: count_line_def)

lemma step_cases [consumes 1, case_names File Update Hunk Body Skip]:
  assumes "step lines idx l st = Inr st'"
  obtains
    "HasPrefix l ''diff ''" "st' = start_file lines idx (count_line st)"
  | g where "\<not> HasPrefix l ''diff ''" "\<not> HasPrefix l ''@@ ''" "keeps_chunks g"
      "update_file g (count_line st) = Inr st'"
  | "\<not> HasPrefix l ''diff ''" "HasPrefix l ''@@ ''" "start_hunk l (count_line st) = Inr st'"
  | "\<not> HasPrefix l ''diff ''" "\<not> HasPrefix l ''@@ ''" "\<not> path_line l" "inHunk st"
      "isSourceLine l" "body_line l (count_line st) = Inr st'"
  | "\<not> HasPrefix l ''diff ''" "\<not> HasPrefix l ''@@ ''" "\<not> (inHunk st \<and> isSourceLine l)"
      "st' = count_line st"
proof (cases "HasPrefix l ''diff ''")
  case True
  with assms that(1) show ?thesis by (simp add: step_file)
next
  case nd: False
  show ?thesis
  proof (cases "path_line l")
    case True
    from path_line_hd [OF True] have na: "\<not> HasPrefix l ''@@ ''"
      by (auto dest: HasPrefix_hd)
    from step_path [OF nd True, of lines idx st] assms
    obtain g where "keeps_chunks g" "update_file g (count_line st) = Inr st'"
      by auto
    with nd na that(2) show ?thesis by blast
  next
    case np: False
    note eq = step_other [OF nd np, of lines idx st]
    show ?thesis
    proof (cases "HasPrefix l ''@@ ''")
      case True
      with assms eq nd that(3) show ?thesis by simp
    next
      case na: False
      show ?thesis
      proof (cases "inHunk st \<and> isSourceLine l")
        case True
        with assms eq nd na np that(4) show ?thesis by simp
      next
        case False
        with assms eq nd na that(5) show ?thesis by simp
      qed
    qed
  qed
qed

section \<open>The pointers of the reachable states\<close>

lemma length_Suc_snoc: "length xs = Suc n \<Longrightarrow> \<exists>ys y. xs = ys @ [y] \<and> length ys = n"
  by (cases xs rule: rev_cases) auto

lemma wf_file_view:
  assumes "wf_state st" "file_ptr st \<noteq> None"
  shows "\<exists>pre f. file_view st pre f"
proof -
  from assms obtain i fs where "file_ptr st = Some i" "diffFiles st = Some fs" "length fs = Suc i"
    by (auto simp: wf_state_def split: option.splits)
  moreover from length_Suc_snoc [OF this(3)] obtain pre f where "fs = pre @ [f]" "length pre = i"
    by blast
  ultimately show ?thesis by (auto simp: file_view_def)
qed

lemma wf_hunk_view:
  assumes "wf_state st" "inHunk st"
  shows "\<exists>pre f cs c. hunk_view st pre f cs c"
proof -
  from assms obtain i fs j where i: "file_ptr st = Some i" "diffFiles st = Some fs"
    "length fs = Suc i" "hunk_ptr st = Some (i, j)" "length (Chunks (fs ! i)) = Suc j"
    by (auto simp: wf_state_def split: option.splits)
  from length_Suc_snoc [OF i(3)] obtain pre f where f: "fs = pre @ [f]" "length pre = i"
    by blast
  with i(5) have "length (Chunks f) = Suc j" by auto
  from length_Suc_snoc [OF this] obtain cs c where "Chunks f = cs @ [c]" "length cs = j"
    by blast
  with i f show ?thesis by (auto simp: hunk_view_def file_view_def)
qed

lemma update_file_view:
  assumes "file_view st pre f"
  shows "update_file g st = Inr (st\<lparr>diffFiles := Some (pre @ [g f])\<rparr>)"
  using assms by (simp add: file_view_def update_file_def)

lemma update_file_Inr_ptr: "update_file g st = Inr st' \<Longrightarrow> file_ptr st \<noteq> None"
  by (auto simp: update_file_def split: option.splits)

lemma update_hunk_view:
  assumes "hunk_view st pre f cs c"
  shows "update_hunk g st = Inr (st\<lparr>diffFiles := Some (pre @ [f\<lparr>Chunks := cs @ [g c]\<rparr>])\<rparr>)"
  using assms by (simp add: hunk_view_def file_view_def update_hunk_def update_chunk_def)

lemma hunk_chunk_view:
  assumes "hunk_view st pre f cs c"
  shows "hunk_chunk st = Some c"
  using assms by (simp add: hunk_view_def file_view_def hunk_chunk_def slice_elems_def)

lemma start_hunk_nil: "file_ptr st = None \<Longrightarrow> start_hunk l st = Inl (Panic NilPointerDereference)"
  by (simp add: start_hunk_def Let_def)

lemma start_hunk_view:
  assumes "file_view st pre f"
  shows "start_hunk l st =
     (if length (FindStringSubmatch l) < 5
      then Inl (Err (ErrorString (''Error parsing line: '' @ l)))
      else (case heading_numbers (FindStringSubmatch l) of
              Inl e \<Rightarrow> Inl e
            | Inr (a, b, c, d) \<Rightarrow>
                Inr (hunk_started st pre f (heading_chunk (FindStringSubmatch l) a b c d))))"
  using assms
  by (cases "firstHunkInFile st")
     (auto simp: start_hunk_def Let_def file_view_def update_hunk_def update_chunk_def
        slice_elems_def hunk_started_def heading_chunk_def empty_chunk_def
        split: sum.splits prod.splits)

lemma start_file_view:
  "file_view (start_file lines idx st) (slice_elems (diffFiles st))
     \<lparr> DiffHeader = file_header lines idx, FMode = Modified, OrigName = [], NewName = [],
       Chunks = [] \<rparr>"
  by (simp add: file_view_def start_file_def append_slice_def slice_elems_def split: option.splits)

lemma body_line_Unchanged:
  assumes "hunk_view st pre f cs c"
  shows "body_line (CHR '' '' # t) st = Inr (line_done st pre f cs (unchanged_chunk st t c) 1 1)"
  by (simp add: body_line_def Let_def lineMode_def slice_from1_def update_hunk_view [OF assms]
      line_done_def unchanged_chunk_def)

lemma body_line_Added:
  assumes "hunk_view st pre f cs c"
  shows "body_line (CHR ''+'' # x # t) st = Inr (line_done st pre f cs (added_chunk st t c) 1 0)"
  by (simp add: body_line_def Let_def lineMode_def slice_from1_def update_hunk_view [OF assms]
      line_done_def added_chunk_def)

lemma body_line_Removed:
  assumes "hunk_view st pre f cs c"
  shows "body_line (CHR ''-'' # x # t) st = Inr (line_done st pre f cs (removed_chunk st t c) 0 1)"
  by (simp add: body_line_def Let_def lineMode_def slice_from1_def update_hunk_view [OF assms]
      line_done_def removed_chunk_def)

lemma body_line_marker_only:
  "m = CHR ''+'' \<or> m = CHR ''-'' \<Longrightarrow> body_line [m] st = Inl (Panic SliceBoundsOutOfRange)"
  by (auto simp: body_line_def lineMode_def slice_from1_def)

lemma body_line_other:
  assumes "c \<noteq> CHR '' ''" "c \<noteq> CHR ''+''" "c \<noteq> CHR ''-''"
  shows "body_line (c # t) st =
     Inl (Err (ErrorString (''could not parse line mode for line: '' @ [CHR 0x22] @ (c # t) @ [CHR 0x22])))"
  using assms by (simp add: body_line_def lineMode_def)

lemma body_line_empty: "body_line [] st = Inl (Panic SliceBoundsOutOfRange)"
  by (simp add: body_line_def lineMode_def)

lemma body_line_cases [consumes 2, case_names Unchanged Added Removed]:
  assumes "hunk_view st pre f cs c" "body_line l st = Inr st'"
  obtains
    t where "l = CHR '' '' # t" "st' = line_done st pre f cs (unchanged_chunk st t c) 1 1"
  | x t where "l = CHR ''+'' # x # t" "st' = line_done st pre f cs (added_chunk st t c) 1 0"
  | x t where "l = CHR ''-'' # x # t" "st' = line_done st pre f cs (removed_chunk st t c) 0 1"
proof (cases l)
  case Nil
  with assms(2) show ?thesis by (simp add: body_line_empty)
next
  case (Cons m r)
  consider "m = CHR '' ''" | "m = CHR ''+''" | "m = CHR ''-''"
    | "m \<noteq> CHR '' ''" "m \<noteq> CHR ''+''" "m \<noteq> CHR ''-''" by blast
  then show ?thesis
  proof cases
    case 1
    with Cons assms(2) body_line_Unchanged [OF assms(1), of r] that(1) show ?thesis by simp
  next
    case 2
    show ?thesis
    proof (cases r)
      case Nil
      with 2 Cons assms(2) show ?thesis by (simp add: body_line_marker_only)
    next
      case (Cons x t)
      with 2 \<open>l = m # r\<close> assms(2) body_line_Added [OF assms(1), of x t] that(2)
      show ?thesis by simp
    qed
  next
    case 3
    show ?thesis
    proof (cases r)
      case Nil
      with 3 Cons assms(2) show ?thesis by (simp add: body_line_marker_only)
    next
      case (Cons x t)
      with 3 \<open>l = m # r\<close> assms(2) body_line_Removed [OF assms(1), of x t] that(3)
      show ?thesis by simp
    qed
  next
    case 4
    with Cons assms(2) show ?thesis by (simp add: body_line_other)
  qed
qed

lemma wf_count_line [simp]: "wf_state (count_line st) = wf_state st"
  by (simp add: wf_state_def count_line_def cong: option.case_cong)

lemma file_ptr_count_line [simp]: "file_ptr (count_line st) = file_ptr st"
  by (simp add: count_line_def)

lemma wf_init: "wf_state init_state"
  by (simp add: wf_state_def init_state_def)

lemma wf_start_file: "wf_state (start_file lines idx st)"
  by (simp add: wf_state_def start_file_def append_slice_def slice_elems_def split: option.splits)

lemma wf_update_file:
  assumes "wf_state st" "keeps_chunks g" "update_file g st = Inr st'"
  shows "wf_state st'"
proof -
  from wf_file_view [OF assms(1) update_file_Inr_ptr [OF assms(3)]]
  obtain pre f where v: "file_view st pre f" by blast
  with assms(3) have st': "st' = st\<lparr>diffFiles := Some (pre @ [g f])\<rparr>"
    by (simp add: update_file_view)
  from assms(2) have "Chunks (g f) = Chunks f" by (simp add: keeps_chunks_def)
  with assms(1) v show ?thesis
    unfolding st' by (auto simp: wf_state_def file_view_def)
qed

lemma wf_start_hunk:
  assumes "wf_state st" "start_hunk l st = Inr st'"
  shows "wf_state st'"
proof (cases "file_ptr st")
  case None
  with assms(2) show ?thesis by (simp add: start_hunk_nil)
next
  case (Some i)
  with wf_file_view [OF assms(1)] obtain pre f where v: "file_view st pre f" by auto
  from assms(2) obtain c where "st' = hunk_started st pre f c"
    by (auto simp: start_hunk_view [OF v] split: if_splits sum.splits)
  with v show ?thesis
    by (simp add: wf_state_def hunk_started_def file_view_def)
qed

lemma wf_line_done:
  assumes "hunk_view st pre f cs c" "inHunk st"
  shows "wf_state (line_done st pre f cs c' da dr)"
  using assms by (simp add: wf_state_def line_done_def hunk_view_def file_view_def)

lemma wf_body_line:
  assumes "wf_state st" "inHunk st" "body_line l st = Inr st'"
  shows "wf_state st'"
proof -
  from wf_hunk_view [OF assms(1,2)] obtain pre f cs c where v: "hunk_view st pre f cs c"
    by blast
  from v assms(3) show ?thesis
    by (cases rule: body_line_cases) (simp_all add: wf_line_done [OF v assms(2)])
qed

lemma wf_step:
  assumes "wf_state st" "step lines idx l st = Inr st'"
  shows "wf_state st'"
  using assms(2)
proof (cases rule: step_cases)
  case File
  then show ?thesis by (simp add: wf_start_file)
next
  case (Update g)
  with assms(1) wf_update_file [of "count_line st" g st'] show ?thesis by simp
next
  case Hunk
  with assms(1) wf_start_hunk [of "count_line st" l st'] show ?thesis by simp
next
  case Body
  with assms(1) wf_body_line [of "count_line st" l st'] show ?thesis by simp
next
  case Skip
  with assms(1) show ?thesis by simp
qed

lemma wf_state_at:
  assumes "n \<le> length lines" "state_at lines n = Inr st"
  shows "wf_state st"
  using _ _ assms
proof (rule state_at_invariant [where P = "\<lambda>_. wf_state"])
  show "wf_state init_state" by (rule wf_init)
qed (rule wf_step)

section \<open>Files and headers\<close>

lemma diff_idxs_Suc:
  "diff_idxs lines (Suc n) =
     (if HasPrefix (lines ! n) ''diff '' then diff_idxs lines n @ [n] else diff_idxs lines n)"
  by (simp add: diff_idxs_def)

lemma file_header_spec: "file_header lines i = header_spec lines i"
  by (simp add: file_header_def header_spec_def Let_def)

lemma same_files_headers:
  assumes "same_files st st'"
  shows "headers st' = headers st" "diffFiles st' = None \<longleftrightarrow> diffFiles st = None"
  using assms by (auto simp: same_files_def headers_def slice_elems_def)

lemma diffFiles_count_line [simp]: "diffFiles (count_line st) = diffFiles st"
  by (simp add: count_line_def)

lemma same_files_count_line: "same_files (count_line st) st' \<Longrightarrow> same_files st st'"
  by (simp add: same_files_def)

lemma same_files_update_file:
  assumes "wf_state st" "keeps_chunks g" "update_file g st = Inr st'"
  shows "same_files st st'"
proof -
  from wf_file_view [OF assms(1) update_file_Inr_ptr [OF assms(3)]]
  obtain pre f where v: "file_view st pre f" by blast
  with assms(3) have "diffFiles st' = Some (pre @ [g f])"
    by (auto simp: update_file_view)
  moreover from assms(2) have "DiffHeader (g f) = DiffHeader f" by (simp add: keeps_chunks_def)
  ultimately show ?thesis using v by (auto simp: same_files_def file_view_def)
qed

lemma same_files_start_hunk:
  assumes "wf_state st" "start_hunk l st = Inr st'"
  shows "same_files st st'"
proof (cases "file_ptr st")
  case None
  with assms(2) show ?thesis by (simp add: start_hunk_nil)
next
  case (Some i)
  with wf_file_view [OF assms(1)] obtain pre f where v: "file_view st pre f" by auto
  from assms(2) obtain c where "st' = hunk_started st pre f c"
    by (auto simp: start_hunk_view [OF v] split: if_splits sum.splits)
  with v show ?thesis
    by (auto simp: same_files_def hunk_started_def file_view_def)
qed

lemma same_files_body_line:
  assumes "wf_state st" "inHunk st" "body_line l st = Inr st'"
  shows "same_files st st'"
proof -
  from wf_hunk_view [OF assms(1,2)] obtain pre f cs c where v: "hunk_view st pre f cs c"
    by blast
  then have d: "diffFiles st = Some (pre @ [f])" by (simp add: hunk_view_def file_view_def)
  from v assms(3) show ?thesis
    by (cases rule: body_line_cases) (auto simp: same_files_def line_done_def d)
qed

lemma same_files_step:
  assumes "wf_state st" "step lines idx l st = Inr st'" "\<not> HasPrefix l ''diff ''"
  shows "same_files st st'"
  using assms(2)
proof (cases rule: step_cases)
  case File
  with assms(3) show ?thesis by simp
next
  case (Update g)
  with assms(1) same_files_update_file [of "count_line st" g st'] show ?thesis
    by (simp add: same_files_count_line)
next
  case Hunk
  with assms(1) same_files_start_hunk [of "count_line st" l st'] show ?thesis
    by (simp add: same_files_count_line)
next
  case Body
  with assms(1) same_files_body_line [of "count_line st" l st'] show ?thesis
    by (simp add: same_files_count_line)
next
  case Skip
  then show ?thesis by (simp add: same_files_def)
qed

lemma files_inv_step:
  assumes "wf_state st" "files_inv lines n st" "step lines n (lines ! n) st = Inr st'"
  shows "files_inv lines (Suc n) st'"
proof (cases "HasPrefix (lines ! n) ''diff ''")
  case True
  with assms(3) have "st' = start_file lines n (count_line st)" by (simp add: step_file)
  with assms(2) True show ?thesis
    by (auto simp: files_inv_def diff_idxs_Suc headers_def start_file_def append_slice_def
        slice_elems_def file_header_spec split: option.splits)
next
  case False
  from same_files_headers [OF same_files_step [OF assms(1,3) False]] assms(2) False
  show ?thesis by (simp add: files_inv_def diff_idxs_Suc)
qed

lemma files_inv_state_at:
  assumes "n \<le> length lines" "state_at lines n = Inr st"
  shows "files_inv lines n st"
proof -
  have "wf_state st \<and> files_inv lines n st"
    using _ _ assms
  proof (rule state_at_invariant [where P = "\<lambda>n st. wf_state st \<and> files_inv lines n st"])
    show "wf_state init_state \<and> files_inv lines 0 init_state"
      using wf_init
      by (simp add: files_inv_def init_state_def diff_idxs_def headers_def slice_elems_def)
  next
    fix n st st'
    assume "wf_state st \<and> files_inv lines n st" "step lines n (lines ! n) st = Inr st'"
    then show "wf_state st' \<and> files_inv lines (Suc n) st'"
      by (auto intro: wf_step files_inv_step)
  qed
  then show ?thesis ..
qed

lemma Parse_Inr_state:
  assumes "Parse s = Inr d"
  obtains st where "state_at (Split_nl s) (length (Split_nl s)) = Inr st"
    "d = \<lparr> Files = diffFiles st, Raw = s, PullID = 0 \<rparr>"
  using assms by (auto simp: Parse_state_at split: sum.splits)

text \<open>
  C10, as the claim states it, fails: a line that matches the \<open>index\<close> pattern right after
  the \<open>diff\<close> line is left out of the header when fewer than three lines follow the
  \<open>diff\<close> line.
\<close>

theorem index_line_at_end_not_in_header:
  "rein ''index 12'' \<and>
   Parse (''diff a'' @ [CHR 0x0A] @ ''index 12'') =
     Inr \<lparr> Files = Some [\<lparr> DiffHeader = ''diff a'', FMode = Modified, OrigName = [],
                           NewName = [], Chunks = [] \<rparr>],
           Raw = ''diff a'' @ [CHR 0x0A] @ ''index 12'', PullID = 0 \<rparr>"
  by code_simp

text \<open>
  C10, amended. The files of a parsed diff are those of the \<open>diff\<close> lines of the input, in
  order, and the header of each is its \<open>diff\<close> line alone when fewer than three lines
  follow it; otherwise the \<open>diff\<close> line, then the next line if it matches the \<open>index\<close>
  pattern, then the second and the third line after the \<open>diff\<close> line if both match the
  marker pattern, whether the next line was an \<open>index\<close> line or not.
\<close>

theorem Parse_headers:
  assumes "Parse s = Inr d"
  shows "map DiffHeader (slice_elems (Files d)) =
           map (header_spec (Split_nl s)) (diff_idxs (Split_nl s) (length (Split_nl s)))"
proof -
  from assms obtain st where st: "state_at (Split_nl s) (length (Split_nl s)) = Inr st"
    and d: "d = \<lparr> Files = diffFiles st, Raw = s, PullID = 0 \<rparr>"
    by (rule Parse_Inr_state)
  from files_inv_state_at [OF _ st] show ?thesis
    by (simp add: files_inv_def headers_def d)
qed

text \<open>Two marker lines after a line that is no \<open>index\<close> line are part of the header.\<close>

theorem Parse_headers_witness:
  "Parse (''diff a'' @ [CHR 0x0A] @ ''x'' @ [CHR 0x0A] @ ''--- a/f'' @ [CHR 0x0A] @ ''+++ b/f'') =
     Inr \<lparr> Files = Some [\<lparr> DiffHeader = ''diff a'' @ [CHR 0x0A] @ ''--- a/f'' @ [CHR 0x0A] @ ''+++ b/f'',
                           FMode = Modified, OrigName = ''f'', NewName = ''f'', Chunks = [] \<rparr>],
           Raw = ''diff a'' @ [CHR 0x0A] @ ''x'' @ [CHR 0x0A] @ ''--- a/f'' @ [CHR 0x0A] @ ''+++ b/f'',
           PullID = 0 \<rparr> \<and>
   map (header_spec (Split_nl (''diff a'' @ [CHR 0x0A] @ ''x'' @ [CHR 0x0A] @ ''--- a/f'' @ [CHR 0x0A] @ ''+++ b/f'')))
     (diff_idxs (Split_nl (''diff a'' @ [CHR 0x0A] @ ''x'' @ [CHR 0x0A] @ ''--- a/f'' @ [CHR 0x0A] @ ''+++ b/f''))
        (length (Split_nl (''diff a'' @ [CHR 0x0A] @ ''x'' @ [CHR 0x0A] @ ''--- a/f'' @ [CHR 0x0A] @ ''+++ b/f'')))) =
     [''diff a'' @ [CHR 0x0A] @ ''--- a/f'' @ [CHR 0x0A] @ ''+++ b/f'']"
proof -
  let ?s = "''diff a'' @ [CHR 0x0A] @ ''x'' @ [CHR 0x0A] @ ''--- a/f'' @ [CHR 0x0A] @ ''+++ b/f''"
  let ?d = "\<lparr> Files = Some [\<lparr> DiffHeader = ''diff a'' @ [CHR 0x0A] @ ''--- a/f'' @ [CHR 0x0A] @ ''+++ b/f'',
                           FMode = Modified, OrigName = ''f'', NewName = ''f'', Chunks = [] \<rparr>],
           Raw = ?s, PullID = 0 \<rparr>"
  have p: "Parse ?s = Inr ?d" by code_simp
  from Parse_headers [OF p] p show ?thesis by (simp add: slice_elems_def)
qed

text \<open>
  C9, as the claim states it, fails: for the empty input \<open>Files\<close> is the nil slice.
\<close>

theorem empty_input_Files_nil:
  "Parse [] = Inr \<lparr> Files = None, Raw = [], PullID = 0 \<rparr>"
  by code_simp

text \<open>
  C9, amended. For the empty string \<open>Parse\<close> returns a \<open>Diff\<close> whose \<open>Files\<close> has no
  element, and no error. The \<open>Files\<close> of a returned \<open>Diff\<close> is nil exactly when no line
  of the input begins with \<open>diff \<close>, and it has one element for each line that does.
\<close>

theorem Parse_Files_nil:
  "Parse [] = Inr \<lparr> Files = None, Raw = [], PullID = 0 \<rparr> \<and>
   (Parse s = Inr d \<longrightarrow>
      (Files d = None \<longleftrightarrow> diff_idxs (Split_nl s) (length (Split_nl s)) = []) \<and>
      length (slice_elems (Files d)) = length (diff_idxs (Split_nl s) (length (Split_nl s))))"
proof (intro conjI impI)
  show "Parse [] = Inr \<lparr> Files = None, Raw = [], PullID = 0 \<rparr>"
    by code_simp
next
  assume "Parse s = Inr d"
  then obtain st where st: "state_at (Split_nl s) (length (Split_nl s)) = Inr st"
    and d: "d = \<lparr> Files = diffFiles st, Raw = s, PullID = 0 \<rparr>"
    by (rule Parse_Inr_state)
  from files_inv_state_at [OF _ st]
  have f: "files_inv (Split_nl s) (length (Split_nl s)) st" by simp
  then show "Files d = None \<longleftrightarrow> diff_idxs (Split_nl s) (length (Split_nl s)) = []"
    by (simp add: files_inv_def d)
  from f have "length (headers st) = length (diff_idxs (Split_nl s) (length (Split_nl s)))"
    by (simp add: files_inv_def)
  then show "length (slice_elems (Files d)) = length (diff_idxs (Split_nl s) (length (Split_nl s)))"
    by (simp add: headers_def d)
qed

text \<open>With one \<open>diff\<close> line \<open>Files\<close> is a slice of one file.\<close>

theorem Parse_Files_nil_witness:
  "Parse ''diff a'' =
     Inr \<lparr> Files = Some [\<lparr> DiffHeader = ''diff a'', FMode = Modified, OrigName = [],
                           NewName = [], Chunks = [] \<rparr>], Raw = ''diff a'', PullID = 0 \<rparr> \<and>
   diff_idxs (Split_nl ''diff a'') (length (Split_nl ''diff a'')) = [0] \<and>
   length (slice_elems (Some [\<lparr> DiffHeader = ''diff a'', FMode = Modified, OrigName = [],
                           NewName = [], Chunks = [] \<rparr>])) = 1"
proof -
  let ?d = "\<lparr> Files = Some [\<lparr> DiffHeader = ''diff a'', FMode = Modified, OrigName = [],
                           NewName = [], Chunks = [] \<rparr>], Raw = ''diff a'', PullID = 0 \<rparr>"
  have p: "Parse ''diff a'' = Inr ?d" by code_simp
  have i: "diff_idxs (Split_nl ''diff a'') (length (Split_nl ''diff a'')) = [0]" by code_simp
  from Parse_Files_nil [of "''diff a''" ?d] p i show ?thesis by simp
qed

section \<open>Positions\<close>

lemma diff_idxs_less: "d \<in> set (diff_idxs lines n) \<Longrightarrow> d < n"
  by (simp add: diff_idxs_def)

lemma first_hunk_Suc:
  "first_hunk lines (Suc n) =
     (if HasPrefix (lines ! n) ''diff '' then None
      else if HasPrefix (lines ! n) ''@@ '' \<and> diff_idxs lines n \<noteq> [] \<and> first_hunk lines n = None
           then Some n
      else first_hunk lines n)"
proof (cases "HasPrefix (lines ! n) ''diff ''")
  case True
  then show ?thesis by (simp add: first_hunk_def diff_idxs_Suc)
next
  case False
  show ?thesis
  proof (cases "rev (diff_idxs lines n)")
    case Nil
    with False show ?thesis by (simp add: first_hunk_def diff_idxs_Suc)
  next
    case (Cons d ds)
    then have "d \<in> set (diff_idxs lines n)"
      by (metis list.set_intros(1) set_rev)
    then have "d < n" by (rule diff_idxs_less)
    then have "[Suc d..<Suc n] = [Suc d..<n] @ [n]" by simp
    with False Cons show ?thesis
      by (auto simp: first_hunk_def diff_idxs_Suc split: list.splits)
  qed
qed

lemma pos_inv_init: "pos_inv lines 0 init_state"
  by (simp add: pos_inv_def init_state_def diff_idxs_def first_hunk_def)

lemma counted_update_file: "update_file g (count_line st) = Inr st' \<Longrightarrow> counted st st'"
  by (auto simp: update_file_def counted_def count_line_def split: option.splits)

lemma counted_body_line:
  assumes "wf_state st" "inHunk st" "body_line l (count_line st) = Inr st'"
  shows "counted st st'"
proof -
  from assms(1,2) have "wf_state (count_line st)" "inHunk (count_line st)" by simp_all
  from wf_hunk_view [OF this] obtain pre f cs c where v: "hunk_view (count_line st) pre f cs c"
    by blast
  from v assms(3) show ?thesis
    by (cases rule: body_line_cases) (simp_all add: counted_def line_done_def count_line_def)
qed

lemma Suc_diff_Suc': "h < n \<Longrightarrow> Suc n - Suc h = Suc (n - Suc h)"
  by simp

lemma pos_inv_counted:
  assumes "pos_inv lines n st" "counted st st'"
    "\<not> HasPrefix (lines ! n) ''diff ''" "\<not> HasPrefix (lines ! n) ''@@ ''"
  shows "pos_inv lines (Suc n) st'"
  using assms
  by (auto simp: pos_inv_def counted_def first_hunk_Suc diff_idxs_Suc Suc_diff_Suc' less_Suc_eq
      simp del: diff_Suc_Suc)

lemma pos_inv_start_file:
  assumes "HasPrefix (lines ! n) ''diff ''"
  shows "pos_inv lines (Suc n) (start_file lines n st)"
  using assms by (simp add: pos_inv_def first_hunk_Suc diff_idxs_Suc start_file_def)

lemma pos_inv_start_hunk:
  assumes "wf_state st" "files_inv lines n st" "pos_inv lines n st"
    "\<not> HasPrefix (lines ! n) ''diff ''" "HasPrefix (lines ! n) ''@@ ''"
    "start_hunk l (count_line st) = Inr st'"
  shows "pos_inv lines (Suc n) st'"
proof (cases "file_ptr st")
  case None
  with assms(6) show ?thesis by (simp add: start_hunk_nil)
next
  case (Some i)
  with assms(1) have w: "wf_state (count_line st)" "file_ptr (count_line st) \<noteq> None"
    by simp_all
  from wf_file_view [OF w] obtain pre f where v: "file_view (count_line st) pre f" by blast
  from assms(6) obtain c where st': "st' = hunk_started (count_line st) pre f c"
    by (auto simp: start_hunk_view [OF v] split: if_splits sum.splits)
  from v have "diffFiles st \<noteq> None" by (simp add: file_view_def)
  with assms(2) have ne: "diff_idxs lines n \<noteq> []" by (simp add: files_inv_def)
  show ?thesis
  proof (cases "firstHunkInFile st")
    case True
    with assms(3) have "first_hunk lines n = None" by (simp add: pos_inv_def)
    with True ne assms(4,5) show ?thesis
      by (simp add: pos_inv_def st' hunk_started_def count_line_def first_hunk_Suc diff_idxs_Suc)
  next
    case False
    with assms(3) ne obtain h where h: "first_hunk lines n = Some h" "h < n"
      "diffPosCount st = word_of_nat (n - Suc h)"
      by (auto simp: pos_inv_def)
    with False ne assms(4,5) show ?thesis
      by (simp add: pos_inv_def st' hunk_started_def count_line_def first_hunk_Suc diff_idxs_Suc
          Suc_diff_Suc' less_Suc_eq del: diff_Suc_Suc)
  qed
qed

lemma pos_inv_step:
  assumes "wf_state st" "files_inv lines n st" "pos_inv lines n st"
    "step lines n (lines ! n) st = Inr st'"
  shows "pos_inv lines (Suc n) st'"
  using assms(4)
proof (cases rule: step_cases)
  case File
  then show ?thesis by (simp add: pos_inv_start_file)
next
  case (Update g)
  with assms(3) counted_update_file [of g st st'] show ?thesis
    by (simp add: pos_inv_counted)
next
  case Hunk
  with assms(1,2,3) show ?thesis by (simp add: pos_inv_start_hunk)
next
  case Body
  with assms(1,3) counted_body_line [of st "lines ! n" st'] show ?thesis
    by (simp add: pos_inv_counted)
next
  case Skip
  then have "counted st st'" by (simp add: counted_def count_line_def)
  with assms(3) Skip show ?thesis by (simp add: pos_inv_counted)
qed

lemma all_inv_state_at:
  assumes "n \<le> length lines" "state_at lines n = Inr st"
  shows "wf_state st \<and> files_inv lines n st \<and> pos_inv lines n st"
  using _ _ assms
proof (rule state_at_invariant
    [where P = "\<lambda>n st. wf_state st \<and> files_inv lines n st \<and> pos_inv lines n st"])
  from files_inv_state_at [of 0 lines init_state]
  show "wf_state init_state \<and> files_inv lines 0 init_state \<and> pos_inv lines 0 init_state"
    by (simp add: wf_init pos_inv_init state_at_0)
next
  fix n st st'
  assume "wf_state st \<and> files_inv lines n st \<and> pos_inv lines n st"
    "step lines n (lines ! n) st = Inr st'"
  then show "wf_state st' \<and> files_inv lines (Suc n) st' \<and> pos_inv lines (Suc n) st'"
    by (auto intro: wf_step files_inv_step pos_inv_step)
qed

section \<open>Body lines\<close>

lemma isSourceLine_not_path: "isSourceLine l \<Longrightarrow> \<not> path_line l"
  by (auto simp: isSourceLine_def path_line_def HasPrefix_Cons split: if_splits)

lemma hunk_view_count_line [simp]: "hunk_view (count_line st) pre f cs c = hunk_view st pre f cs c"
  by (simp add: hunk_view_def file_view_def count_line_def)

lemma hunk_view_line_done:
  assumes "hunk_view st pre f cs c"
  shows "hunk_view (line_done st pre f cs c' da dr) pre (f\<lparr>Chunks := cs @ [c']\<rparr>) cs c'"
  using assms by (simp add: hunk_view_def file_view_def line_done_def)

lemma reach_body:
  assumes "n \<le> length lines" "state_at lines n = Inr st" "inHunk st" "isSourceLine l"
    "\<not> HasPrefix l ''diff ''" "\<not> HasPrefix l ''@@ ''"
  obtains pre f cs c where "hunk_view st pre f cs c"
    "step lines n l st = body_line l (count_line st)"
proof -
  from wf_state_at [OF assms(1,2)] have "wf_state st" .
  from wf_hunk_view [OF this assms(3)] obtain pre f cs c where "hunk_view st pre f cs c"
    by blast
  moreover from assms(3-6) have "step lines n l st = body_line l (count_line st)"
    by (simp add: step_other isSourceLine_not_path)
  ultimately show ?thesis by (rule that)
qed

lemma unchanged_chunk_spec:
  "unchanged_chunk st t c =
     line_records_spec Unchanged t (AddedCount st) (RemovedCount st) (diffPosCount st) c"
  by (simp add: unchanged_chunk_def line_records_spec_def)

lemma added_chunk_spec:
  "added_chunk st t c =
     line_records_spec Added t (AddedCount st) (RemovedCount st) (diffPosCount st) c"
  by (simp add: added_chunk_def line_records_spec_def)

lemma removed_chunk_spec:
  "removed_chunk st t c =
     line_records_spec Removed t (AddedCount st) (RemovedCount st) (diffPosCount st) c"
  by (simp add: removed_chunk_def line_records_spec_def)

lemma counters_count_line [simp]:
  "AddedCount (count_line st) = AddedCount st" "RemovedCount (count_line st) = RemovedCount st"
  "diffPosCount (count_line st) = diffPosCount st + 1"
  by (simp_all add: count_line_def)

lemma body_line_spec:
  assumes "hunk_view st pre f cs c" "body_line l st = Inr st'"
  shows "\<exists>m t c'. lineMode l = Inr m \<and>
           c' = line_records_spec m t (AddedCount st) (RemovedCount st) (diffPosCount st) c \<and>
           diffFiles st' = Some (pre @ [f\<lparr>Chunks := cs @ [c']\<rparr>]) \<and>
           hunk_chunk st' = Some c' \<and>
           AddedCount st' = AddedCount st + (if m = Removed then 0 else 1) \<and>
           RemovedCount st' = RemovedCount st + (if m = Added then 0 else 1)"
  using assms
proof (cases rule: body_line_cases)
  case (Unchanged t)
  with hunk_chunk_view [OF hunk_view_line_done [OF assms(1)], of "unchanged_chunk st t c" 1 1]
  show ?thesis
    by (auto simp: lineMode_def unchanged_chunk_spec line_done_def)
next
  case (Added x t)
  with hunk_chunk_view [OF hunk_view_line_done [OF assms(1)], of "added_chunk st t c" 1 0]
  show ?thesis
    by (auto simp: lineMode_def added_chunk_spec line_done_def)
next
  case (Removed x t)
  with hunk_chunk_view [OF hunk_view_line_done [OF assms(1)], of "removed_chunk st t c" 0 1]
  show ?thesis
    by (auto simp: lineMode_def removed_chunk_spec line_done_def)
qed

lemma new_lines_add [simp]: "new_lines r (add_line dl r) = [dl]" "new_lines r r = []"
  by (simp_all add: new_lines_def add_line_def)

lemma spec_whole_position:
  assumes "c' = line_records_spec m t a r p c"
  shows "\<exists>dl. Lines (WholeRange c') = Lines (WholeRange c) @ [dl] \<and> Position dl = p"
  using assms by (cases m) (simp_all add: line_records_spec_def add_line_def)

lemma spec_side_positions:
  assumes "c' = line_records_spec m t a r p c"
  shows "list_all (\<lambda>dl. Position dl = p)
       (new_lines (OrigRange c) (OrigRange c') @ new_lines (NewRange c) (NewRange c'))"
  using assms by (cases m) (simp_all add: line_records_spec_def)

lemma example3: "state_at example_lines 3 = Inr example_state3"
  by code_simp

lemma example4: "state_at example_lines 4 = Inr example_state4"
  by code_simp

lemma example_step3: "step example_lines 3 '' x'' example_state3 = Inr example_state4"
  by code_simp

text \<open>
  What the code does with a body line that begins with \<open>+\<close> (or with \<open>-\<close>) and has a
  character after this marker, in a state that the loop reaches inside a hunk: the step
  succeeds, and the one record it appends to \<open>WholeRange\<close> and to \<open>NewRange\<close> (to
  \<open>OrigRange\<close> for \<open>-\<close>) has as \<open>Content\<close> the line without the marker and without the
  character that follows it. A line that is the marker alone is not covered: there the
  code panics, as the evaluations at the end show.
\<close>

theorem added_removed_content:
  assumes "n < length lines" "state_at lines n = Inr st" "l = lines ! n"
    and "inHunk st" "isSourceLine l"
    and "l = m # x # t" "m = CHR ''+'' \<or> m = CHR ''-''"
  shows "\<exists>st' c c' dl.
           step lines n l st = Inr st' \<and> hunk_chunk st = Some c \<and> hunk_chunk st' = Some c' \<and>
           Content dl = drop 2 l \<and>
           Lines (WholeRange c') = Lines (WholeRange c) @ [dl] \<and>
           (if m = CHR ''+''
            then Mode dl = Added \<and> Lines (NewRange c') = Lines (NewRange c) @ [dl]
            else Mode dl = Removed \<and> Lines (OrigRange c') = Lines (OrigRange c) @ [dl])"
proof -
  from assms(1) have le: "n \<le> length lines" by simp
  from assms(6,7) have np: "\<not> HasPrefix l ''diff ''" "\<not> HasPrefix l ''@@ ''"
    by (auto simp: HasPrefix_Cons)
  from le assms(2,4,5) np obtain pre f cs c where v: "hunk_view st pre f cs c"
    and s: "step lines n l st = body_line l (count_line st)"
    by (rule reach_body)
  from v have v': "hunk_view (count_line st) pre f cs c" by simp
  from assms(7) show ?thesis
  proof
    assume m: "m = CHR ''+''"
    let ?c' = "added_chunk (count_line st) t c"
    let ?st' = "line_done (count_line st) pre f cs ?c' 1 0"
    from s m assms(6) have "step lines n l st = Inr ?st'"
      by (simp add: body_line_Added [OF v'])
    moreover have "hunk_chunk ?st' = Some ?c'"
      by (rule hunk_chunk_view [OF hunk_view_line_done [OF v']])
    ultimately show ?thesis
      using hunk_chunk_view [OF v] m assms(6)
      by (simp add: added_chunk_def add_line_def)
  next
    assume m: "m = CHR ''-''"
    let ?c' = "removed_chunk (count_line st) t c"
    let ?st' = "line_done (count_line st) pre f cs ?c' 0 1"
    from s m assms(6) have "step lines n l st = Inr ?st'"
      by (simp add: body_line_Removed [OF v'])
    moreover have "hunk_chunk ?st' = Some ?c'"
      by (rule hunk_chunk_view [OF hunk_view_line_done [OF v']])
    ultimately show ?thesis
      using hunk_chunk_view [OF v] m assms(6)
      by (simp add: removed_chunk_def add_line_def)
  qed
qed

text \<open>The added line \<open>+yz\<close> of the example is stored with the content \<open>z\<close>.\<close>

theorem added_removed_content_witness:
  "state_at example_lines 4 = Inr example_state4 \<and>
   (\<exists>st' c c' dl.
      step example_lines 4 ''+yz'' example_state4 = Inr st' \<and>
      hunk_chunk example_state4 = Some c \<and> hunk_chunk st' = Some c' \<and>
      Content dl = ''z'' \<and>
      Lines (WholeRange c') = Lines (WholeRange c) @ [dl] \<and>
      Mode dl = Added \<and> Lines (NewRange c') = Lines (NewRange c) @ [dl])"
proof -
  have p: "4 < length example_lines" "''+yz'' = example_lines ! 4" "inHunk example_state4"
    "isSourceLine ''+yz''"
    by code_simp+
  from added_removed_content [OF p(1) example4 p(2-4), of "CHR ''+''" "CHR ''y''" "''z''"]
  show ?thesis using example4 by simp
qed

text \<open>
  C7. In a state that the loop reaches inside a hunk, a body line that the step accepts
  changes the chunk that \<open>hunk\<close> points to, the last chunk of the last file, and nothing
  else of the files. An unchanged line appends one record to \<open>NewRange\<close>, numbered by the
  counter of the new side, one record of the same mode, content and position to
  \<open>OrigRange\<close>, numbered by the counter of the original side, and the record of
  \<open>NewRange\<close> to \<open>WholeRange\<close>; an added or a removed line appends one record to its side
  and the same record to \<open>WholeRange\<close>. The counters of the sides that got a record go
  up by one.
\<close>

theorem body_line_records:
  assumes "n < length lines" "state_at lines n = Inr st" "l = lines ! n"
    and "inHunk st" "isSourceLine l" "\<not> HasPrefix l ''diff ''" "\<not> HasPrefix l ''@@ ''"
    and "step lines n l st = Inr st'"
  shows "\<exists>pre f cs c m t c'.
           diffFiles st = Some (pre @ [f]) \<and> Chunks f = cs @ [c] \<and> hunk_chunk st = Some c \<and>
           lineMode l = Inr m \<and>
           c' = line_records_spec m t (AddedCount st) (RemovedCount st) (diffPosCount st + 1) c \<and>
           diffFiles st' = Some (pre @ [f\<lparr>Chunks := cs @ [c']\<rparr>]) \<and> hunk_chunk st' = Some c' \<and>
           AddedCount st' = AddedCount st + (if m = Removed then 0 else 1) \<and>
           RemovedCount st' = RemovedCount st + (if m = Added then 0 else 1)"
proof -
  from assms(1) have le: "n \<le> length lines" by simp
  from le assms(2,4-7) obtain pre f cs c where v: "hunk_view st pre f cs c"
    and s: "step lines n l st = body_line l (count_line st)"
    by (rule reach_body)
  from v have v': "hunk_view (count_line st) pre f cs c" by simp
  from s assms(8) have "body_line l (count_line st) = Inr st'" by simp
  from body_line_spec [OF v' this] obtain m t c' where
    "lineMode l = Inr m"
    "c' = line_records_spec m t (AddedCount st) (RemovedCount st) (diffPosCount st + 1) c"
    "diffFiles st' = Some (pre @ [f\<lparr>Chunks := cs @ [c']\<rparr>])" "hunk_chunk st' = Some c'"
    "AddedCount st' = AddedCount st + (if m = Removed then 0 else 1)"
    "RemovedCount st' = RemovedCount st + (if m = Added then 0 else 1)"
    by auto
  moreover from v have "diffFiles st = Some (pre @ [f])" "Chunks f = cs @ [c]"
    by (simp_all add: hunk_view_def file_view_def)
  moreover note hunk_chunk_view [OF v]
  ultimately show ?thesis by blast
qed

text \<open>The unchanged line of the example: the record of the new range has the number 7, the
  record of the original range the number 3, both the content \<open>x\<close> and the position 2.\<close>

theorem body_line_records_witness:
  "state_at example_lines 3 = Inr example_state3 \<and>
   step example_lines 3 '' x'' example_state3 = Inr example_state4 \<and>
   (\<exists>pre f cs c c'.
      diffFiles example_state3 = Some (pre @ [f]) \<and> Chunks f = cs @ [c] \<and>
      hunk_chunk example_state3 = Some c \<and>
      c' = line_records_spec Unchanged ''x'' 7 3 2 c \<and>
      diffFiles example_state4 = Some (pre @ [f\<lparr>Chunks := cs @ [c']\<rparr>]) \<and>
      hunk_chunk example_state4 = Some c' \<and>
      AddedCount example_state4 = 8 \<and> RemovedCount example_state4 = 4)"
proof -
  have p: "3 < length example_lines" "'' x'' = example_lines ! 3" "inHunk example_state3"
    "isSourceLine '' x''" "\<not> HasPrefix '' x'' ''diff ''" "\<not> HasPrefix '' x'' ''@@ ''"
    by code_simp+
  have m: "lineMode '' x'' = Inr Unchanged" by code_simp
  have v: "AddedCount example_state3 = 7" "RemovedCount example_state3 = 3"
    "diffPosCount example_state3 = 1"
    by (simp_all add: example_state3_def example_state_def)
  from body_line_records [OF p(1) example3 p(2-6) example_step3]
  obtain pre f cs c t c' where
    r: "diffFiles example_state3 = Some (pre @ [f])" "Chunks f = cs @ [c]"
      "hunk_chunk example_state3 = Some c"
      "c' = line_records_spec Unchanged t 7 3 2 c"
      "diffFiles example_state4 = Some (pre @ [f\<lparr>Chunks := cs @ [c']\<rparr>])"
      "hunk_chunk example_state4 = Some c'"
      "AddedCount example_state4 = 8" "RemovedCount example_state4 = 4"
    by (auto simp: m v)
  have "hunk_chunk example_state4 =
      Some (line_records_spec Unchanged ''x'' 7 3 2 (the (hunk_chunk example_state3)))"
    by code_simp
  with r(3,4,6) have "c' = line_records_spec Unchanged ''x'' 7 3 2 c" by simp
  with r example3 example_step3 show ?thesis by blast
qed

text \<open>
  C8. In a state that the loop reaches inside a hunk, at line \<open>n\<close>, the current file has
  a first hunk heading, at a line \<open>h\<close> before \<open>n\<close>, and every record that an accepted body
  line adds has the position \<open>n - h\<close>: 1 for the line after the heading, and one more for
  every line of the input after that, whether the loop stored or ignored it.
\<close>

theorem body_line_position:
  assumes "n < length lines" "state_at lines n = Inr st" "l = lines ! n"
    and "inHunk st" "isSourceLine l" "\<not> HasPrefix l ''diff ''" "\<not> HasPrefix l ''@@ ''"
    and "step lines n l st = Inr st'"
  shows "\<exists>h c c' dl.
           first_hunk lines n = Some h \<and> h < n \<and>
           hunk_chunk st = Some c \<and> hunk_chunk st' = Some c' \<and>
           Lines (WholeRange c') = Lines (WholeRange c) @ [dl] \<and>
           Position dl = word_of_nat (n - h) \<and>
           list_all (\<lambda>r. Position r = word_of_nat (n - h))
             (new_lines (OrigRange c) (OrigRange c') @ new_lines (NewRange c) (NewRange c'))"
proof -
  from assms(1) have le: "n \<le> length lines" by simp
  from all_inv_state_at [OF le assms(2)] have "pos_inv lines n st" by simp
  with assms(4) obtain h where h: "first_hunk lines n = Some h" "h < n"
    "diffPosCount st = word_of_nat (n - Suc h)"
    by (auto simp: pos_inv_def)
  from h(2) have "Suc (n - Suc h) = n - h" by simp
  then have "(word_of_nat (n - h) :: go_int) = word_of_nat (Suc (n - Suc h))" by simp
  with h(3) have p: "diffPosCount st + 1 = word_of_nat (n - h)" by simp
  from le assms(2,4-7) obtain pre f cs c where v: "hunk_view st pre f cs c"
    and s: "step lines n l st = body_line l (count_line st)"
    by (rule reach_body)
  from v have v': "hunk_view (count_line st) pre f cs c" by simp
  from s assms(8) have "body_line l (count_line st) = Inr st'" by simp
  from body_line_spec [OF v' this] p obtain m t c' where
    c': "c' = line_records_spec m t (AddedCount st) (RemovedCount st) (word_of_nat (n - h)) c"
    and hc: "hunk_chunk st' = Some c'"
    by auto
  from spec_whole_position [OF c'] obtain dl where
    "Lines (WholeRange c') = Lines (WholeRange c) @ [dl]" "Position dl = word_of_nat (n - h)"
    by blast
  with spec_side_positions [OF c'] h(1,2) hc hunk_chunk_view [OF v] show ?thesis
    by blast
qed

text \<open>In the example the heading is line 1, line 2 is empty and ignored, and the unchanged
  line, line 3, gets the position 2.\<close>

theorem body_line_position_witness:
  "state_at example_lines 3 = Inr example_state3 \<and>
   step example_lines 3 '' x'' example_state3 = Inr example_state4 \<and>
   first_hunk example_lines 3 = Some 1 \<and>
   (\<exists>c c' dl.
      hunk_chunk example_state3 = Some c \<and> hunk_chunk example_state4 = Some c' \<and>
      Lines (WholeRange c') = Lines (WholeRange c) @ [dl] \<and> Position dl = 2 \<and>
      list_all (\<lambda>r. Position r = 2)
        (new_lines (OrigRange c) (OrigRange c') @ new_lines (NewRange c) (NewRange c')))"
proof -
  have p: "3 < length example_lines" "'' x'' = example_lines ! 3" "inHunk example_state3"
    "isSourceLine '' x''" "\<not> HasPrefix '' x'' ''diff ''" "\<not> HasPrefix '' x'' ''@@ ''"
    by code_simp+
  have h: "first_hunk example_lines 3 = Some 1" by code_simp
  from body_line_position [OF p(1) example3 p(2-6) example_step3] h example3 example_step3
  show ?thesis by simp
qed

section \<open>Hunk headings that fail\<close>












section \<open>The changed lines\<close>

lemma index_add_changed:
  "map_index (add_changed name m dl) k =
     map_index m k @ (if k = name \<and> Mode dl = Added then [Number dl] else [])"
  by (simp add: add_changed_def map_index_def)

lemma index_changed_chunk:
  "map_index (changed_chunk name m h) k =
     map_index m k @
       (if k = name then map Number (filter (\<lambda>dl. Mode dl = Added) (Lines (NewRange h))) else [])"
proof -
  have "map_index (foldl (add_changed name) m ls) k =
          map_index m k @ (if k = name then map Number (filter (\<lambda>dl. Mode dl = Added) ls) else [])"
    for ls
    by (induction ls arbitrary: m) (simp_all add: index_add_changed)
  then show ?thesis by (simp add: changed_chunk_def)
qed

lemma index_changed_chunks:
  "map_index (foldl (changed_chunk name) m hs) k =
     map_index m k @
       (if k = name
        then concat (map (\<lambda>h. map Number (filter (\<lambda>dl. Mode dl = Added) (Lines (NewRange h)))) hs)
        else [])"
  by (induction hs arbitrary: m) (simp_all add: index_changed_chunk)

lemma index_changed_file:
  "map_index (changed_file m f) k =
     map_index m k @ (if FMode f \<noteq> Deleted \<and> NewName f = k then added_numbers f else [])"
  by (auto simp: changed_file_def index_changed_chunks added_numbers_def)

lemma index_changed_files:
  "map_index (foldl changed_file m fs) k =
     map_index m k @
       concat (map added_numbers (filter (\<lambda>f. FMode f \<noteq> Deleted \<and> NewName f = k) fs))"
  by (induction fs arbitrary: m) (simp_all add: index_changed_file)

lemma index_empty: "map_index Map.empty k = []"
  by (simp add: map_index_def)

lemma no_empty_add_changed: "no_empty_entry m \<Longrightarrow> no_empty_entry (add_changed name m dl)"
  by (simp add: no_empty_entry_def add_changed_def)

lemma no_empty_changed_chunk: "no_empty_entry m \<Longrightarrow> no_empty_entry (changed_chunk name m h)"
proof -
  have "no_empty_entry m \<Longrightarrow> no_empty_entry (foldl (add_changed name) m ls)" for ls
    by (induction ls arbitrary: m) (simp_all add: no_empty_add_changed)
  then show "no_empty_entry m \<Longrightarrow> no_empty_entry (changed_chunk name m h)"
    by (simp add: changed_chunk_def)
qed

lemma no_empty_changed_file: "no_empty_entry m \<Longrightarrow> no_empty_entry (changed_file m f)"
proof -
  have "no_empty_entry m \<Longrightarrow> no_empty_entry (foldl (changed_chunk name) m hs)" for hs name
    by (induction hs arbitrary: m) (simp_all add: no_empty_changed_chunk)
  then show "no_empty_entry m \<Longrightarrow> no_empty_entry (changed_file m f)"
    by (simp add: changed_file_def)
qed

lemma no_empty_changed_files: "no_empty_entry m \<Longrightarrow> no_empty_entry (foldl changed_file m fs)"
  by (induction fs arbitrary: m) (simp_all add: no_empty_changed_file)

lemma entry_from_index: "no_empty_entry m \<Longrightarrow> m k = (if map_index m k = [] then None else Some (map_index m k))"
  by (cases "m k") (auto simp: no_empty_entry_def map_index_def)

text \<open>
  C6. For every \<open>Diff\<close> and every name, the entry of \<open>Changed\<close> for the name lists the
  numbers of the lines of mode \<open>Added\<close> of the new ranges of the chunks of the files of
  that \<open>NewName\<close> whose mode is not \<open>Deleted\<close>, in the order of the files, chunks and
  lines; there is no entry when there is no such line. So a deleted file contributes
  nothing, and no number of a line of another mode appears.
\<close>

theorem Changed_is_added_numbers: "Changed d name = changed_spec d name"
proof -
  define ns where
    "ns = concat (map added_numbers
            (filter (\<lambda>f. FMode f \<noteq> Deleted \<and> NewName f = name) (slice_elems (Files d))))"
  have ne: "no_empty_entry (Changed d)"
    unfolding Changed_def by (rule no_empty_changed_files) (simp add: no_empty_entry_def)
  have "map_index (Changed d) name = ns"
    unfolding Changed_def ns_def by (simp add: index_changed_files index_empty)
  then have "Changed d name = (if ns = [] then None else Some ns)"
    using entry_from_index [OF ne, of name] by simp
  also have "\<dots> = changed_spec d name"
    unfolding changed_spec_def ns_def Let_def ..
  finally show ?thesis .
qed

text \<open>Two files of the name \<open>f\<close>: the added line 2 of the modified one is listed, the
  unchanged line 1 and the added line 9 of the deleted one are not.\<close>

theorem Changed_is_added_numbers_witness:
  "Changed \<lparr> Files = Some
       [\<lparr> DiffHeader = [], FMode = Modified, OrigName = ''f'', NewName = ''f'',
          Chunks = [\<lparr> ChunkHeader = [], OrigRange = \<lparr> Start = 1, Length = 1, Lines = [] \<rparr>,
                     NewRange = \<lparr> Start = 1, Length = 2,
                       Lines = [\<lparr> Mode = Unchanged, Number = 1, Content = ''a'', Position = 1 \<rparr>,
                                \<lparr> Mode = Added, Number = 2, Content = ''b'', Position = 2 \<rparr>] \<rparr>,
                     WholeRange = \<lparr> Start = 0, Length = 0, Lines = [] \<rparr> \<rparr>] \<rparr>,
        \<lparr> DiffHeader = [], FMode = Deleted, OrigName = ''g'', NewName = ''f'',
          Chunks = [\<lparr> ChunkHeader = [], OrigRange = \<lparr> Start = 1, Length = 1, Lines = [] \<rparr>,
                     NewRange = \<lparr> Start = 1, Length = 1,
                       Lines = [\<lparr> Mode = Added, Number = 9, Content = ''c'', Position = 1 \<rparr>] \<rparr>,
                     WholeRange = \<lparr> Start = 0, Length = 0, Lines = [] \<rparr> \<rparr>] \<rparr>],
      Raw = [], PullID = 0 \<rparr> ''f'' = Some [2]"
  by (simp add: Changed_is_added_numbers changed_spec_def added_numbers_def slice_elems_def)

section \<open>Evaluations\<close>

text \<open>
  C1 (the code contradicts the claim). A hunk heading that omits both lengths,
  \<open>@@ -5 +5 @@\<close>: the length of each side is set to the start of the side, 5, not to 1.
\<close>

theorem omitted_length_is_start:
  "Parse (''diff a'' @ [CHR 0x0A] @ ''@@ -5 +5 @@'') =
     Inr \<lparr> Files = Some [\<lparr> DiffHeader = ''diff a'', FMode = Modified, OrigName = [],
                           NewName = [],
                           Chunks = [\<lparr> ChunkHeader = [],
                                      OrigRange = \<lparr> Start = 5, Length = 5, Lines = [] \<rparr>,
                                      NewRange = \<lparr> Start = 5, Length = 5, Lines = [] \<rparr>,
                                      WholeRange = \<lparr> Start = 0, Length = 0, Lines = [] \<rparr> \<rparr>] \<rparr>],
           Raw = ''diff a'' @ [CHR 0x0A] @ ''@@ -5 +5 @@'', PullID = 0 \<rparr>"
  by code_simp

text \<open>
  C2 (the code contradicts the claim). The added line \<open>+add a line\<close> is stored with the
  content \<open>dd a line\<close>: the marker and the character after it are both stripped.
\<close>

theorem added_line_loses_two_characters:
  "Parse (''diff a'' @ [CHR 0x0A] @ ''@@ -1 +1 @@'' @ [CHR 0x0A] @ ''+add a line'') =
     Inr \<lparr> Files = Some [\<lparr> DiffHeader = ''diff a'', FMode = Modified, OrigName = [],
                           NewName = [],
                           Chunks = [\<lparr> ChunkHeader = [],
                                      OrigRange = \<lparr> Start = 1, Length = 1, Lines = [] \<rparr>,
                                      NewRange = \<lparr> Start = 1, Length = 1,
                                        Lines = [\<lparr> Mode = Added, Number = 1,
                                                   Content = ''dd a line'', Position = 1 \<rparr>] \<rparr>,
                                      WholeRange = \<lparr> Start = 0, Length = 0,
                                        Lines = [\<lparr> Mode = Added, Number = 1,
                                                   Content = ''dd a line'', Position = 1 \<rparr>] \<rparr> \<rparr>] \<rparr>],
           Raw = ''diff a'' @ [CHR 0x0A] @ ''@@ -1 +1 @@'' @ [CHR 0x0A] @ ''+add a line'',
           PullID = 0 \<rparr>"
  by code_simp

text \<open>
  C4 (the code contradicts the claim). A body line that is the marker \<open>+\<close> alone, an added
  empty line, is a source line of the hunk, but nothing is stored for it: after the
  marker is stripped the content is empty, and stripping one more character from it
  panics. The removed empty line \<open>-\<close> panics in the same way.
\<close>

theorem bare_marker_line_panics:
  "isSourceLine ''+'' \<and> lineMode ''+'' = Inr Added \<and>
   Parse (''diff a'' @ [CHR 0x0A] @ ''@@ -1 +1 @@'' @ [CHR 0x0A] @ ''+'') =
     Inl (Panic SliceBoundsOutOfRange) \<and>
   isSourceLine ''-'' \<and> lineMode ''-'' = Inr Removed \<and>
   Parse (''diff a'' @ [CHR 0x0A] @ ''@@ -1 +1 @@'' @ [CHR 0x0A] @ ''-'') =
     Inl (Panic SliceBoundsOutOfRange)"
  by code_simp

text \<open>
  C3 (the code contradicts the claim). A \<open>+++ /dev/null\<close> line before any \<open>diff\<close> line
  writes through the nil pointer \<open>file\<close>: \<open>Parse\<close> panics, it returns neither a \<open>Diff\<close> nor
  an error.
\<close>

theorem null_marker_before_diff_panics:
  "Parse ''+++ /dev/null'' = Inl (Panic NilPointerDereference)"
  by code_simp

end
